theory Spec2Isabelle
  imports Main "HOL-Library.Sublist"
begin

section \<open>The kiosk application (src/src/App.jsx, first snapshot)\<close>

text \<open>
  The repository is one React component, \<^verbatim>\<open>App\<close>. The file src/src/App.jsx holds the
  latest snapshot of it in its lines 1 to 320 (an older snapshot follows in the same
  file), and src/unnamed/part_000 an intermediate snapshot whose playlist holds plain
  URL strings; \<^verbatim>\<open>isVideo\<close>, \<^verbatim>\<open>fetchContent\<close>, \<^verbatim>\<open>nextSlide\<close> and the slider effect of
  that snapshot read as those of the latest one, on URL strings in place of items.
  The development below embeds the latest snapshot; the reconciler of the
  intermediate snapshot is embedded beside it.

  JavaScript strings are modelled as \<^typ>\<open>string\<close>, a list of 8-bit characters: an
  ASCII character is one \<^typ>\<open>char\<close>, and a character outside ASCII stands as the bytes
  of its UTF-8 encoding, none of which is an ASCII character.
\<close>

subsection \<open>Media classifier: \<^verbatim>\<open>isVideo\<close>\<close>

text \<open>
  \<^verbatim>\<open>const isVideo = (url) => url.match(/\.(mp4|webm|ogg|mov)/i);\<close>

  The regular expression has no anchor and no \<^verbatim>\<open>g\<close> flag: \<^verbatim>\<open>match\<close> tries every start
  position from the left and returns the first match (a truthy array) or \<^verbatim>\<open>null\<close>.
  Under the \<^verbatim>\<open>i\<close> flag two characters match when their canonical forms agree; the
  canonical form of a character is its upper case, and (without the \<^verbatim>\<open>u\<close> flag) no
  character outside ASCII canonicalizes to an ASCII character. The pattern is ASCII,
  so only the ASCII letters matter, and a match is a run of ASCII characters.
\<close>

definition canonicalize :: "char \<Rightarrow> char" where
  "canonicalize c =
     (let n = (of_char c :: nat) in if 97 \<le> n \<and> n \<le> 122 then char_of (n - 32) else c)"

text \<open>A literal of the pattern matched at the head of the input, ignoring case.\<close>

fun ci_literal :: "string \<Rightarrow> string \<Rightarrow> bool" where
  "ci_literal [] s = True"
| "ci_literal (p # ps) [] = False"
| "ci_literal (p # ps) (c # cs) = (canonicalize p = canonicalize c \<and> ci_literal ps cs)"

text \<open>The whole pattern matched at the head of the input: the dot, then the alternation.\<close>

fun match_here :: "string \<Rightarrow> bool" where
  "match_here [] = False"
| "match_here (c # cs) =
     (c = CHR ''.'' \<and>
      (ci_literal ''mp4'' cs \<or> ci_literal ''webm'' cs \<or>
       ci_literal ''ogg'' cs \<or> ci_literal ''mov'' cs))"

text \<open>The search of \<^verbatim>\<open>match\<close>: the index of the first position where the pattern matches.\<close>

fun regex_search :: "string \<Rightarrow> nat \<Rightarrow> nat option" where
  "regex_search [] i = None"
| "regex_search (c # cs) i =
     (if match_here (c # cs) then Some i else regex_search cs (Suc i))"

text \<open>The result of \<^verbatim>\<open>isVideo\<close> is only ever tested for truthiness.\<close>

definition isVideo :: "string \<Rightarrow> bool" where
  "isVideo url = (regex_search url 0 \<noteq> None)"

text \<open>
  The render shows a slide as \<^verbatim>\<open>_isVideo ? <video .../> : <img .../>\<close>: the two kinds
  of media.
\<close>

datatype media_kind = Image | Video

definition kind_of :: "string \<Rightarrow> media_kind" where
  "kind_of url = (if isVideo url then Video else Image)"

text \<open>
  What the classifier is compared with. \<open>is_video_extension e\<close>: the characters \<open>e\<close>
  spell one of the four extensions, in any mix of cases. \<open>dot_extension_at_end s\<close>:
  the reading of the specification, the string ends with a dot and one of the
  extensions.
\<close>

definition same_letters :: "string \<Rightarrow> string \<Rightarrow> bool" where
  "same_letters e ext = (map canonicalize e = map canonicalize ext)"

definition is_video_extension :: "string \<Rightarrow> bool" where
  "is_video_extension e =
     (same_letters e ''mp4'' \<or> same_letters e ''webm'' \<or>
      same_letters e ''ogg'' \<or> same_letters e ''mov'')"

definition dot_extension_at_end :: "string \<Rightarrow> bool" where
  "dot_extension_at_end s =
     (suffix ''.MP4'' (map canonicalize s) \<or> suffix ''.WEBM'' (map canonicalize s) \<or>
      suffix ''.OGG'' (map canonicalize s) \<or> suffix ''.MOV'' (map canonicalize s))"

subsection \<open>Data\<close>

text \<open>
  Errors are values: a rejected promise of the storage client, a \<^verbatim>\<open>TypeError\<close> of a
  property read on \<^verbatim>\<open>undefined\<close> or \<^verbatim>\<open>null\<close>, a \<^verbatim>\<open>SyntaxError\<close> of \<^verbatim>\<open>JSON.parse\<close>.
  A function that can throw returns \<open>js_error + 'a\<close>, with \<open>Inl\<close> the error.
\<close>

datatype js_error = StorageError string | TypeError string | SyntaxError string

text \<open>The playlist entry built in \<^verbatim>\<open>fetchContent\<close>: \<^verbatim>\<open>{ url, fullPath, name }\<close>.\<close>

record media_item =
  url :: string
  fullPath :: string
  name :: string

text \<open>
  An array object: its identity (what \<^verbatim>\<open>Object.is\<close> compares, and what React compares
  to decide whether state changed) and its elements. The program never mutates a
  playlist array after building it.
\<close>

record 'a js_array =
  ident :: nat
  elems :: "'a list"

text \<open>
  What the program reads and writes of a \<^verbatim>\<open><video>\<close> element: \<^verbatim>\<open>muted\<close>,
  \<^verbatim>\<open>currentTime\<close>, and the calls of \<^verbatim>\<open>play()\<close> (a rejected autoplay is swallowed by
  the \<^verbatim>\<open>catch\<close> on the play promise).
\<close>

record video_element =
  muted :: bool
  currentTime :: nat
  play_calls :: nat

datatype log_entry =
    ConsoleError string js_error
  | ConsoleLog string
  | ConsoleLogError js_error

text \<open>
  A repeating timer of \<^verbatim>\<open>setInterval\<close>: its handle, its period in milliseconds and
  what its callback starts on every tick.
\<close>

datatype poll_action = FetchContentBackground | CheckVersion

record interval_timer =
  timer_id :: nat
  period_ms :: int
  on_tick :: "poll_action list"

text \<open>
  The state of the component: the eight \<^verbatim>\<open>useState\<close> cells and the \<^verbatim>\<open>videoRefs\<close> array
  (a JavaScript array with holes: \<open>None\<close> is \<^verbatim>\<open>undefined\<close> or \<^verbatim>\<open>null\<close>), and what the
  component's effects leave in its environment: whether the 5000 ms dwell timer of the
  slider effect is armed, the armed interval timers, the console, the calls of
  \<^verbatim>\<open>window.location.reload\<close> (the page loaded by a reload is a new session, which
  starts from the initial state again), and the identity the next allocated array gets.
\<close>

record app_state =
  mediaItems :: "media_item js_array"
  currentIndex :: int
  loading :: bool
  notification :: string
  isMuted :: bool
  isFullscreen :: bool
  isUiVisible :: bool
  kioskId :: "string option"
  videoRefs :: "video_element option list"
  dwell_timer :: bool
  intervals :: "interval_timer list"
  console :: "log_entry list"
  reload_calls :: nat
  next_ident :: nat

text \<open>The initial values of the \<^verbatim>\<open>useState\<close> and \<^verbatim>\<open>useRef\<close> calls (lines 35 to 46).\<close>

definition init_state :: app_state where
  "init_state =
     \<lparr> mediaItems = \<lparr> ident = 0, elems = [] \<rparr>,
       currentIndex = 0,
       loading = False,
       notification = [],
       isMuted = True,
       isFullscreen = False,
       isUiVisible = True,
       kioskId = None,
       videoRefs = [],
       dwell_timer = False,
       intervals = [],
       console = [],
       reload_calls = 0,
       next_ident = 1 \<rparr>"

definition APP_VERSION :: string where
  "APP_VERSION = ''1.1''"

text \<open>\<^verbatim>\<open>!kioskId\<close>: \<^verbatim>\<open>null\<close> and the empty string are falsy.\<close>

definition falsy :: "string option \<Rightarrow> bool" where
  "falsy v = (case v of None \<Rightarrow> True | Some str \<Rightarrow> str = [])"

subsection \<open>Reconciler: the updater passed to \<^verbatim>\<open>setMediaItems\<close>\<close>

text \<open>
  \<^verbatim>\<open>Array.prototype.some\<close> with a callback of the element and its index: true as soon
  as the callback is true on an element, from the left.
\<close>

fun some_indexed :: "('a \<Rightarrow> nat \<Rightarrow> bool) \<Rightarrow> 'a list \<Rightarrow> nat \<Rightarrow> bool" where
  "some_indexed f [] i = False"
| "some_indexed f (x # xs) i = (f x i \<or> some_indexed f xs (Suc i))"

text \<open>
  App.jsx, lines 78 to 82:
  \<^verbatim>\<open>
  setMediaItems(prevItems => {
    if (prevItems.length !== newItems.length) return newItems;
    const isDifferent = prevItems.some((item, index) => item.url !== newItems[index].url);
    return isDifferent ? newItems : prevItems;
  });
  \<close>
  The read \<^verbatim>\<open>newItems[index]\<close> is in range: it is reached with equal lengths only.
\<close>

definition mediaItems_updater ::
  "media_item js_array \<Rightarrow> media_item js_array \<Rightarrow> media_item js_array" where
  "mediaItems_updater newItems prevItems =
     (if length (elems prevItems) \<noteq> length (elems newItems) then newItems
      else
        let isDifferent =
              some_indexed (\<lambda>item index. url item \<noteq> url (elems newItems ! index))
                (elems prevItems) 0
        in if isDifferent then newItems else prevItems)"

text \<open>
  The snapshot src/unnamed/part_000, lines 69 to 73, holds plain URL strings:
  \<^verbatim>\<open>
  setMediaItems(prevItems => {
    if (prevItems.length !== urls.length) return urls;
    const isDifferent = prevItems.some((url, index) => url !== urls[index]);
    return isDifferent ? urls : prevItems;
  });
  \<close>
\<close>

definition mediaItems_updater_urls ::
  "string js_array \<Rightarrow> string js_array \<Rightarrow> string js_array" where
  "mediaItems_updater_urls urls prevItems =
     (if length (elems prevItems) \<noteq> length (elems urls) then urls
      else
        let isDifferent =
              some_indexed (\<lambda>u index. u \<noteq> elems urls ! index) (elems prevItems) 0
        in if isDifferent then urls else prevItems)"

subsection \<open>Content refresh: \<^verbatim>\<open>fetchContent\<close>\<close>

text \<open>
  The remote store is outside the program. One refresh pass sees its answers: the
  outcome of \<^verbatim>\<open>listAll\<close> (a rejection, or the items of the folder), and for every
  item the outcome of \<^verbatim>\<open>getDownloadURL\<close>.
\<close>

record storage_item =
  item_fullPath :: string
  item_name :: string

type_synonym listing = "js_error + (storage_item \<times> (js_error + string)) list"

text \<open>
  \<^verbatim>\<open>Promise.all\<close>: the array of the results when every promise fulfils, a rejection
  when one rejects (here the leftmost one; the program only logs it).
\<close>

fun promise_all :: "(js_error + 'a) list \<Rightarrow> js_error + 'a list" where
  "promise_all [] = Inr []"
| "promise_all (Inl e # ps) = Inl e"
| "promise_all (Inr x # ps) =
     (case promise_all ps of Inl e \<Rightarrow> Inl e | Inr xs \<Rightarrow> Inr (x # xs))"

text \<open>The callback mapped over \<^verbatim>\<open>response.items\<close> (lines 68 to 75).\<close>

fun download_item :: "storage_item \<times> (js_error + string) \<Rightarrow> js_error + media_item" where
  "download_item (item, Inl e) = Inl e"
| "download_item (item, Inr u) =
     Inr \<lparr> url = u, fullPath = item_fullPath item, name = item_name item \<rparr>"

text \<open>
  The body of the \<^verbatim>\<open>try\<close> block (lines 65 to 82). The array that \<^verbatim>\<open>Promise.all\<close>
  builds is a new object.
\<close>

definition fetchContent_try :: "listing \<Rightarrow> app_state \<Rightarrow> js_error + app_state" where
  "fetchContent_try remote s =
     (case remote of
        Inl e \<Rightarrow> Inl e
      | Inr items \<Rightarrow>
          (case promise_all (map download_item items) of
             Inl e \<Rightarrow> Inl e
           | Inr xs \<Rightarrow>
               let newItems = \<lparr> ident = next_ident s, elems = xs \<rparr> in
               Inr (s\<lparr> next_ident := Suc (next_ident s),
                       mediaItems := mediaItems_updater newItems (mediaItems s) \<rparr>)))"

text \<open>
  \<^verbatim>\<open>fetchContent\<close> (lines 56 to 89), one call run to its end against the answers of
  the store: the early return, the loading indicator of the cold start, the \<^verbatim>\<open>try\<close>
  block, the \<^verbatim>\<open>catch\<close> that logs, the \<^verbatim>\<open>finally\<close> that clears the indicator.
\<close>

definition fetchContent :: "bool \<Rightarrow> listing \<Rightarrow> app_state \<Rightarrow> js_error + app_state" where
  "fetchContent isBackgroundRefresh remote s =
     (if falsy (kioskId s) then Inr s
      else
        let s1 = (if \<not> isBackgroundRefresh \<and> length (elems (mediaItems s)) = 0
                  then s\<lparr> loading := True \<rparr> else s)
        in case fetchContent_try remote s1 of
             Inr s2 \<Rightarrow> Inr (s2\<lparr> loading := False \<rparr>)
           | Inl error \<Rightarrow>
               Inr (s1\<lparr> console := console s1 @ [ConsoleError ''Error fetching content:'' error],
                        loading := False \<rparr>))"

subsection \<open>Version gate: \<^verbatim>\<open>checkVersion\<close>\<close>

text \<open>
  The value \<^verbatim>\<open>JSON.parse\<close> returns. The payload of a number is never inspected by the
  program.
\<close>

datatype json =
    JNull
  | JBool bool
  | JNumber int
  | JString string
  | JArray "json list"
  | JObject "(string \<times> json) list"

text \<open>
  What one version check meets: \<^verbatim>\<open>getBytes\<close> rejects, or \<^verbatim>\<open>JSON.parse\<close> throws on the
  decoded text, or it returns a value.
\<close>

datatype descriptor_fetch =
    GetBytesRejected js_error
  | ParseFailed js_error
  | Parsed json

text \<open>
  The property read \<^verbatim>\<open>remoteData.version\<close>: a \<^verbatim>\<open>TypeError\<close> on \<^verbatim>\<open>null\<close>, the member of
  an object, \<^verbatim>\<open>undefined\<close> (\<open>None\<close>) when the object has no such member and on every
  boolean, number, string and array.
\<close>

fun version_of :: "json \<Rightarrow> js_error + json option" where
  "version_of JNull = Inl (TypeError ''Cannot read properties of null'')"
| "version_of (JObject members) = Inr (map_of members ''version'')"
| "version_of other = Inr None"

text \<open>
  The \<^verbatim>\<open>try\<close> block of \<^verbatim>\<open>checkVersion\<close> (lines 102 to 109);
  \<^verbatim>\<open>remoteData.version !== APP_VERSION\<close> is false on the string \<^verbatim>\<open>"1.1"\<close> only.
\<close>

definition checkVersion_try :: "descriptor_fetch \<Rightarrow> app_state \<Rightarrow> js_error + app_state" where
  "checkVersion_try remote s =
     (case remote of
        GetBytesRejected e \<Rightarrow> Inl e
      | ParseFailed e \<Rightarrow> Inl e
      | Parsed remoteData \<Rightarrow>
          (case version_of remoteData of
             Inl e \<Rightarrow> Inl e
           | Inr v \<Rightarrow>
               if v \<noteq> Some (JString APP_VERSION)
               then Inr (s\<lparr> console := console s @ [ConsoleLog ''New version detected! Reloading...''],
                             reload_calls := Suc (reload_calls s) \<rparr>)
               else Inr s))"

text \<open>\<^verbatim>\<open>checkVersion\<close> (lines 99 to 113): the \<^verbatim>\<open>catch\<close> clause is empty.\<close>

definition checkVersion :: "descriptor_fetch \<Rightarrow> app_state \<Rightarrow> js_error + app_state" where
  "checkVersion remote s =
     (case checkVersion_try remote s of Inr s' \<Rightarrow> Inr s' | Inl err \<Rightarrow> Inr s)"

text \<open>
  The reading of the specification: a descriptor is well formed when it is an object
  with a string under \<^verbatim>\<open>version\<close>, and a reload is due exactly when a well-formed
  descriptor arrives whose version string is not the build constant.
\<close>

fun descriptor_version :: "json \<Rightarrow> string option" where
  "descriptor_version (JObject members) =
     (case map_of members ''version'' of Some (JString v) \<Rightarrow> Some v | _ \<Rightarrow> None)"
| "descriptor_version other = None"

definition reload_due :: "descriptor_fetch \<Rightarrow> bool" where
  "reload_due remote =
     (case remote of
        Parsed remoteData \<Rightarrow>
          (case descriptor_version remoteData of
             Some v \<Rightarrow> v \<noteq> APP_VERSION
           | None \<Rightarrow> False)
      | _ \<Rightarrow> False)"

subsection \<open>Poll scheduler: the effect of lines 96 to 121\<close>

text \<open>
  \<^verbatim>\<open>setInterval\<close> arms a timer and returns its handle, a number no armed timer has;
  \<^verbatim>\<open>clearInterval\<close> disarms the timer of a handle.
\<close>

definition fresh_timer_id :: "interval_timer list \<Rightarrow> nat" where
  "fresh_timer_id timers = Suc (fold max (map timer_id timers) 0)"

definition setInterval ::
  "poll_action list \<Rightarrow> int \<Rightarrow> interval_timer list \<Rightarrow> interval_timer list \<times> nat" where
  "setInterval handler delay timers =
     (let h = fresh_timer_id timers
      in (timers @ [\<lparr> timer_id = h, period_ms = delay, on_tick = handler \<rparr>], h))"


text \<open>
  The effect:
  \<^verbatim>\<open>
  useEffect(() => {
    if (!kioskId) return;
    const checkVersion = async () => { ... };
    const interval = setInterval(() => {
      fetchContent(true);
      checkVersion();
    }, 120000); // 2 Minutes
    return () => clearInterval(interval);
  }, [kioskId]);
  \<close>
  Its result is the timers armed afterwards and the handle its cleanup closure holds
  (\<open>None\<close>: it returned no cleanup). React runs the cleanup of the last run before it
  runs the effect again on a change of \<^verbatim>\<open>kioskId\<close>, and when the component is torn down.
\<close>

definition autoRefresh_effect ::
  "string option \<Rightarrow> interval_timer list \<Rightarrow> interval_timer list \<times> nat option" where
  "autoRefresh_effect kid timers =
     (if falsy kid then (timers, None)
      else
        let (timers', interval) =
              setInterval [FetchContentBackground, CheckVersion] 120000 timers
        in (timers', Some interval))"




subsection \<open>Playback: \<^verbatim>\<open>nextSlide\<close> and the slider effect\<close>

text \<open>
  Lines 124 to 129:
  \<^verbatim>\<open>
  const nextSlide = () => {
    setCurrentIndex((prev) => {
      if (prev >= mediaItems.length - 1) return 0;
      return prev + 1;
    });
  };
  \<close>
  The timer callback and the \<^verbatim>\<open>onEnded\<close> handler that call it are those of the
  latest render, so \<^verbatim>\<open>mediaItems\<close> is the playlist held when it runs.
\<close>

definition nextSlide :: "app_state \<Rightarrow> app_state" where
  "nextSlide s =
     s\<lparr> currentIndex :=
          (let prev = currentIndex s
           in if prev \<ge> int (length (elems (mediaItems s))) - 1 then 0 else prev + 1) \<rparr>"

text \<open>\<^verbatim>\<open>videoRefs.current[currentIndex]\<close>, and an assignment to the element found there.\<close>

definition current_video :: "app_state \<Rightarrow> video_element option" where
  "current_video s =
     (let i = currentIndex s
      in if 0 \<le> i \<and> i < int (length (videoRefs s)) then videoRefs s ! nat i else None)"

definition set_current_video :: "video_element \<Rightarrow> app_state \<Rightarrow> app_state" where
  "set_current_video v s = s\<lparr> videoRefs := (videoRefs s)[nat (currentIndex s) := Some v] \<rparr>"

text \<open>
  The slider effect (lines 131 to 157), with dependencies
  \<^verbatim>\<open>[currentIndex, mediaItems, isMuted]\<close>. A run starts with the cleanup of the run
  before (\<^verbatim>\<open>clearTimeout\<close>). When the index is past the end the effect calls
  \<^verbatim>\<open>setCurrentIndex(0)\<close> and returns; the index changed, so React renders and runs
  the effect again: the recursive call. A negative index would read \<^verbatim>\<open>undefined\<close> from
  the playlist and throw on \<^verbatim>\<open>currentItem.url\<close>.
\<close>

function slider_effect :: "app_state \<Rightarrow> js_error + app_state" where
  "slider_effect s =
     (let s0 = s\<lparr> dwell_timer := False \<rparr> in
      if length (elems (mediaItems s)) = 0 then Inr s0
      else if currentIndex s \<ge> int (length (elems (mediaItems s)))
      then slider_effect (s0\<lparr> currentIndex := 0 \<rparr>)
      else if currentIndex s < 0 then Inl (TypeError ''currentItem is undefined'')
      else
        let currentItem = elems (mediaItems s) ! nat (currentIndex s) in
        if \<not> isVideo (url currentItem) then Inr (s0\<lparr> dwell_timer := True \<rparr>)
        else
          (case current_video s of
             None \<Rightarrow> Inr s0
           | Some currentVideo \<Rightarrow>
               Inr (set_current_video
                      (currentVideo\<lparr> currentTime := 0, muted := isMuted s,
                                      play_calls := Suc (play_calls currentVideo) \<rparr>) s0)))"
  by pat_completeness auto
termination
proof (relation "measure (\<lambda>s. if length (elems (mediaItems s)) \<noteq> 0 \<and>
                                  currentIndex s \<ge> int (length (elems (mediaItems s)))
                               then 1 else 0)")
  show "wf (measure (\<lambda>s. if length (elems (mediaItems s)) \<noteq> 0 \<and>
                              currentIndex s \<ge> int (length (elems (mediaItems s)))
                           then 1 else 0))"
    by (rule wf_measure)
next
  fix s x :: app_state
  assume "x = s\<lparr>dwell_timer := False\<rparr>"
    and "length (elems (mediaItems s)) \<noteq> 0"
    and "int (length (elems (mediaItems s))) \<le> currentIndex s"
  then show "(x\<lparr>currentIndex := 0\<rparr>, s)
       \<in> measure (\<lambda>s. if length (elems (mediaItems s)) \<noteq> 0 \<and>
                           currentIndex s \<ge> int (length (elems (mediaItems s)))
                        then 1 else 0)"
    by simp
qed

declare slider_effect.simps [simp del]

subsection \<open>Session controls and mutations\<close>

text \<open>
  Lines 166 to 170:
  \<^verbatim>\<open>
  const toggleSound = () => {
    setIsMuted(!isMuted);
    const currentVideo = videoRefs.current[currentIndex];
    if (currentVideo) currentVideo.muted = !isMuted;
  };
  \<close>
\<close>

definition toggleSound :: "app_state \<Rightarrow> app_state" where
  "toggleSound s =
     (let s' = s\<lparr> isMuted := \<not> isMuted s \<rparr>
      in case current_video s of
           None \<Rightarrow> s'
         | Some currentVideo \<Rightarrow> set_current_video (currentVideo\<lparr> muted := \<not> isMuted s \<rparr>) s')"

text \<open>
  \<^verbatim>\<open>toggleFullscreenAndUi\<close>: the request goes to the browser, whose answer comes back
  as a \<^verbatim>\<open>fullscreenchange\<close> event; a rejected request is logged.
\<close>

definition toggleFullscreenAndUi :: "js_error option \<Rightarrow> app_state \<Rightarrow> app_state" where
  "toggleFullscreenAndUi rejected s =
     (let s' = (case rejected of
                  None \<Rightarrow> s
                | Some e \<Rightarrow> s\<lparr> console := console s @ [ConsoleLogError e] \<rparr>)
      in s'\<lparr> isUiVisible := False \<rparr>)"

definition showUi :: "app_state \<Rightarrow> app_state" where
  "showUi s = s\<lparr> isUiVisible := True \<rparr>"

text \<open>
  \<^verbatim>\<open>showToast\<close> sets the notification; the timeout it arms arrives 3000 ms later and
  clears it.
\<close>

definition showToast :: "string \<Rightarrow> app_state \<Rightarrow> app_state" where
  "showToast msg s = s\<lparr> notification := msg \<rparr>"

definition handleFsChange :: "bool \<Rightarrow> app_state \<Rightarrow> app_state" where
  "handleFsChange fullscreenElement s = s\<lparr> isFullscreen := fullscreenElement \<rparr>"

text \<open>
  \<^verbatim>\<open>handleDelete\<close> (lines 183 to 194) against the operator's answer to the confirmation
  and the outcome of \<^verbatim>\<open>deleteObject\<close>, and \<^verbatim>\<open>handleUpload\<close> (lines 196 to 206) against
  the file chosen and the outcome of \<^verbatim>\<open>uploadBytes\<close>; both end with
  \<^verbatim>\<open>fetchContent(true)\<close>.
\<close>

definition handleDelete ::
  "string \<Rightarrow> bool \<Rightarrow> js_error option \<Rightarrow> listing \<Rightarrow> app_state \<Rightarrow> js_error + app_state" where
  "handleDelete path confirmed deleted remote s =
     (if \<not> confirmed then Inr s
      else
        let s1 = showToast ''Deleting...'' s in
        case deleted of
          Some error \<Rightarrow> Inr (showToast ''Error deleting.'' s1)
        | None \<Rightarrow> fetchContent True remote (showToast ''Deleted!'' s1))"

definition handleUpload ::
  "string option \<Rightarrow> js_error option \<Rightarrow> listing \<Rightarrow> app_state \<Rightarrow> js_error + app_state" where
  "handleUpload file uploaded remote s =
     (case file of
        None \<Rightarrow> Inr s
      | Some file_name \<Rightarrow>
          let s1 = showToast ''Uploading...'' s in
          case uploaded of
            Some err \<Rightarrow> Inr (showToast ''Error uploading.'' s1)
          | None \<Rightarrow> fetchContent True remote (showToast ''Success!'' s1))"

subsection \<open>The component as a transition system\<close>

text \<open>
  Mounting (lines 49 to 53, 91 to 93 and 96 to 121): the kiosk id is read from the
  query parameter, \<^verbatim>\<open>params.get("id") || "common"\<close>; with the id known the first
  \<^verbatim>\<open>fetchContent()\<close> runs and the poll timer is armed.
\<close>

definition detect_kioskId :: "string option \<Rightarrow> string" where
  "detect_kioskId param = (if falsy param then ''common'' else the param)"

definition mount :: "string option \<Rightarrow> listing \<Rightarrow> app_state \<Rightarrow> js_error + app_state" where
  "mount param remote s =
     (let s1 = s\<lparr> kioskId := Some (detect_kioskId param) \<rparr>;
          s2 = s1\<lparr> intervals := fst (autoRefresh_effect (kioskId s1) (intervals s1)) \<rparr>
      in fetchContent False remote s2)"

text \<open>The callback of the poll timer: \<^verbatim>\<open>fetchContent(true); checkVersion();\<close>\<close>

definition poll_tick :: "listing \<Rightarrow> descriptor_fetch \<Rightarrow> app_state \<Rightarrow> js_error + app_state" where
  "poll_tick remote descriptor s =
     (case fetchContent True remote s of
        Inl e \<Rightarrow> Inl e
      | Inr s1 \<Rightarrow> checkVersion descriptor s1)"

text \<open>
  The ref callback \<^verbatim>\<open>el => videoRefs.current[index] = el\<close>: a store into a JavaScript
  array, which grows when the index is past its end.
\<close>

definition array_store :: "'a option list \<Rightarrow> nat \<Rightarrow> 'a option \<Rightarrow> 'a option list" where
  "array_store xs i v =
     (if i < length xs then xs[i := v] else xs @ replicate (i - length xs) None @ [v])"

text \<open>
  What happens to the component, each with the answers of the outside world it meets:
  the mount, a tick of the poll timer, the dwell timeout, the \<^verbatim>\<open>ended\<close> event of a
  video, the buttons of the admin overlay, the \<^verbatim>\<open>fullscreenchange\<close> event, an upload,
  a delete, the timeout of a toast, and React calling a ref callback (which is how the
  \<^verbatim>\<open><video>\<close> elements of the render reach \<^verbatim>\<open>videoRefs\<close>). A handler is run to its end
  against these answers. The mount effects run once, while no kiosk id is known; every
  other event is accepted in every state, which allows more runs than the browser
  produces.
\<close>

datatype event =
    Mount "string option" listing
  | PollTick listing descriptor_fetch
  | DwellTimeout
  | VideoEnded
  | ToggleSound
  | FullscreenChange bool
  | ToggleFullscreenAndUi "js_error option"
  | ShowUi
  | CloseUi
  | Upload "string option" "js_error option" listing
  | Delete string bool "js_error option" listing
  | ToastTimeout
  | VideoRef nat "video_element option"

fun handle :: "event \<Rightarrow> app_state \<Rightarrow> js_error + app_state" where
  "handle (Mount param remote) s = (if kioskId s = None then mount param remote s else Inr s)"
| "handle (PollTick remote descriptor) s = poll_tick remote descriptor s"
| "handle DwellTimeout s = Inr (nextSlide (s\<lparr> dwell_timer := False \<rparr>))"
| "handle VideoEnded s = Inr (nextSlide s)"
| "handle ToggleSound s = Inr (toggleSound s)"
| "handle (FullscreenChange fullscreenElement) s = Inr (handleFsChange fullscreenElement s)"
| "handle (ToggleFullscreenAndUi rejected) s = Inr (toggleFullscreenAndUi rejected s)"
| "handle ShowUi s = Inr (showUi s)"
| "handle CloseUi s = Inr (s\<lparr> isUiVisible := False \<rparr>)"
| "handle (Upload file uploaded remote) s = handleUpload file uploaded remote s"
| "handle (Delete path confirmed deleted remote) s = handleDelete path confirmed deleted remote s"
| "handle ToastTimeout s = Inr (s\<lparr> notification := [] \<rparr>)"
| "handle (VideoRef index el) s = Inr (s\<lparr> videoRefs := array_store (videoRefs s) index el \<rparr>)"

text \<open>
  After a handler, React renders when state changed and runs the slider effect when
  one of its dependencies changed; \<^verbatim>\<open>mediaItems\<close> is compared by identity.
\<close>

definition slider_deps_changed :: "app_state \<Rightarrow> app_state \<Rightarrow> bool" where
  "slider_deps_changed s s' =
     (\<not> (currentIndex s' = currentIndex s \<and>
         ident (mediaItems s') = ident (mediaItems s) \<and>
         isMuted s' = isMuted s))"

definition step :: "event \<Rightarrow> app_state \<Rightarrow> js_error + app_state" where
  "step ev s =
     (case handle ev s of
        Inl e \<Rightarrow> Inl e
      | Inr s' \<Rightarrow> if slider_deps_changed s s' then slider_effect s' else Inr s')"

inductive reachable :: "app_state \<Rightarrow> bool" where
  start: "reachable init_state"
| after: "reachable s \<Longrightarrow> step ev s = Inr s' \<Longrightarrow> reachable s'"

subsection \<open>Sample inputs\<close>

text \<open>An item of the folder of kiosk "lobby" whose download URL resolves.\<close>

definition lobby_item :: "string \<Rightarrow> storage_item \<times> (js_error + string)" where
  "lobby_item n =
     (\<lparr> item_fullPath = ''images/lobby/'' @ n, item_name = n \<rparr>,
      Inr (''https://store.example/o/'' @ n @ ''?alt=media''))"

text \<open>The component run over a list of events, stopping at the first error.\<close>

fun run :: "event list \<Rightarrow> app_state \<Rightarrow> js_error + app_state" where
  "run [] s = Inr s"
| "run (ev # evs) s = (case step ev s of Inl e \<Rightarrow> Inl e | Inr s' \<Rightarrow> run evs s')"

text \<open>
  The playlist of two items, an image and a video, and three later listings of the
  folder: the same two download URLs again, the video under a new download URL, and
  the image alone.
\<close>

definition playlist_ab :: "media_item js_array" where
  "playlist_ab =
     \<lparr> ident = 1,
       elems = [\<lparr> url = ''https://store.example/o/a.png?alt=media'',
                   fullPath = ''images/lobby/a.png'', name = ''a.png'' \<rparr>,
                \<lparr> url = ''https://store.example/o/b.mp4?alt=media'',
                   fullPath = ''images/lobby/b.mp4'', name = ''b.mp4'' \<rparr>] \<rparr>"

definition listing_ab_again :: "media_item js_array" where
  "listing_ab_again = playlist_ab\<lparr> ident := 2 \<rparr>"

definition listing_ab_new_token :: "media_item js_array" where
  "listing_ab_new_token =
     \<lparr> ident = 3,
       elems = [\<lparr> url = ''https://store.example/o/a.png?alt=media'',
                   fullPath = ''images/lobby/a.png'', name = ''a.png'' \<rparr>,
                \<lparr> url = ''https://store.example/o/b.mp4?alt=media&token=2'',
                   fullPath = ''images/lobby/b.mp4'', name = ''b.mp4'' \<rparr>] \<rparr>"

definition listing_a :: "media_item js_array" where
  "listing_a =
     \<lparr> ident = 4,
       elems = [\<lparr> url = ''https://store.example/o/a.png?alt=media'',
                   fullPath = ''images/lobby/a.png'', name = ''a.png'' \<rparr>] \<rparr>"

text \<open>
  A session of kiosk "lobby": the mount lists the two items, React attaches the video
  element of the second slide, the dwell timeout of the image fires. Afterwards the
  video is showing.
\<close>

definition lobby_session :: "event list" where
  "lobby_session =
     [Mount (Some ''lobby'') (Inr [lobby_item ''a.png'', lobby_item ''b.mp4'']),
      VideoRef 1 (Some \<lparr> muted = True, currentTime = 0, play_calls = 0 \<rparr>),
      DwellTimeout]"

definition showing_b :: app_state where
  "showing_b =
     \<lparr> mediaItems = playlist_ab,
       currentIndex = 1,
       loading = False,
       notification = [],
       isMuted = True,
       isFullscreen = False,
       isUiVisible = True,
       kioskId = Some ''lobby'',
       videoRefs = [None, Some \<lparr> muted = True, currentTime = 0, play_calls = 1 \<rparr>],
       dwell_timer = False,
       intervals = [\<lparr> timer_id = 1, period_ms = 120000,
                      on_tick = [FetchContentBackground, CheckVersion] \<rparr>],
       console = [],
       reload_calls = 0,
       next_ident = 2 \<rparr>"

text \<open>
  Answers of the outside world used below: a poll tick whose listing holds the image
  alone while the version descriptor cannot be fetched; a listing in which the
  download URL of the second item cannot be resolved; and three version descriptors,
  \<^verbatim>\<open>{"version": "1.2"}\<close>, \<^verbatim>\<open>{}\<close> and \<^verbatim>\<open>{"version": "1.1"}\<close>.
\<close>

definition listing_shrinks :: event where
  "listing_shrinks =
     PollTick (Inr [lobby_item ''a.png'']) (GetBytesRejected (StorageError ''offline''))"

definition listing_fails :: listing where
  "listing_fails =
     Inr [lobby_item ''a.png'',
          (\<lparr> item_fullPath = ''images/lobby/b.mp4'', item_name = ''b.mp4'' \<rparr>,
           Inl (StorageError ''storage/retry-limit-exceeded''))]"

definition descriptor_next_build :: descriptor_fetch where
  "descriptor_next_build = Parsed (JObject [(''version'', JString ''1.2'')])"

definition descriptor_without_version :: descriptor_fetch where
  "descriptor_without_version = Parsed (JObject [])"

definition descriptor_this_build :: descriptor_fetch where
  "descriptor_this_build = Parsed (JObject [(''version'', JString ''1.1'')])"

section \<open>Properties of the media classifier\<close>

lemma ci_literal_iff:
  "ci_literal p s = (\<exists>e rest. s = e @ rest \<and> same_letters e p)"
proof (induction p s rule: ci_literal.induct)
  case (1 s)
  show ?case by (simp add: same_letters_def)
next
  case (2 p ps)
  show ?case by (simp add: same_letters_def)
next
  case (3 p ps c cs)
  show ?case
  proof
    assume "ci_literal (p # ps) (c # cs)"
    then have pc: "canonicalize p = canonicalize c" and "ci_literal ps cs" by simp_all
    with 3 obtain e rest where "cs = e @ rest" "same_letters e ps" by auto
    with pc have "c # cs = (c # e) @ rest \<and> same_letters (c # e) (p # ps)"
      by (simp add: same_letters_def)
    then show "\<exists>e rest. c # cs = e @ rest \<and> same_letters e (p # ps)" by blast
  next
    assume "\<exists>e rest. c # cs = e @ rest \<and> same_letters e (p # ps)"
    then obtain e rest where e: "c # cs = e @ rest" "same_letters e (p # ps)" by blast
    from e(2) obtain d ds
      where d: "e = d # ds" "canonicalize d = canonicalize p" "same_letters ds ps"
      by (cases e) (auto simp: same_letters_def)
    with e(1) have "d = c" "cs = ds @ rest" by simp_all
    with d 3 show "ci_literal (p # ps) (c # cs)" by auto
  qed
qed

lemma match_here_iff:
  "match_here s = (\<exists>e rest. s = CHR ''.'' # e @ rest \<and> is_video_extension e)"
  by (cases s) (auto simp: ci_literal_iff is_video_extension_def)

lemma regex_search_iff:
  "(regex_search s i \<noteq> None) = (\<exists>pre rest. s = pre @ rest \<and> match_here rest)"
proof (induction s arbitrary: i)
  case Nil
  show ?case by simp
next
  case (Cons c cs)
  show ?case
  proof (cases "match_here (c # cs)")
    case True
    then have "c # cs = [] @ (c # cs) \<and> match_here (c # cs)" by simp
    then have "\<exists>pre rest. c # cs = pre @ rest \<and> match_here rest" by blast
    with True show ?thesis by (simp del: match_here.simps)
  next
    case False
    have "(\<exists>pre rest. c # cs = pre @ rest \<and> match_here rest) =
          (\<exists>pre rest. cs = pre @ rest \<and> match_here rest)"
    proof
      assume "\<exists>pre rest. c # cs = pre @ rest \<and> match_here rest"
      then obtain pre rest where pr: "c # cs = pre @ rest" "match_here rest" by blast
      with False have "pre \<noteq> []" by (auto simp del: match_here.simps)
      then obtain p ps where "pre = p # ps" by (cases pre) auto
      with pr have "cs = ps @ rest" by simp
      with pr(2) show "\<exists>pre rest. cs = pre @ rest \<and> match_here rest" by blast
    next
      assume "\<exists>pre rest. cs = pre @ rest \<and> match_here rest"
      then obtain pre rest where "cs = pre @ rest" "match_here rest" by blast
      then have "c # cs = (c # pre) @ rest \<and> match_here rest" by simp
      then show "\<exists>pre rest. c # cs = pre @ rest \<and> match_here rest" by blast
    qed
    with False Cons.IH [of "Suc i"] show ?thesis by (simp del: match_here.simps)
  qed
qed

lemma isVideo_iff:
  "isVideo s = (\<exists>pre e post. s = pre @ CHR ''.'' # e @ post \<and> is_video_extension e)"
  unfolding isVideo_def regex_search_iff match_here_iff by blast

lemma isVideo_download_url:
  "isVideo ''https://store.example/o/images%2Flobby%2Fintro.mov?alt=media&token=7''"
  "isVideo ''https://store.example/o/photo.png?alt=media&token=a.mov''"
  by code_simp+

text \<open>
  C3, as the code has it. The classifier is a total function of the string alone:
  it answers Video exactly when the string contains, at some position, a dot followed
  by mp4, webm, ogg or mov in any mix of cases, and Image on every other string;
  "clip.MP4" and "clip.mov" are Video, "photo.jpg" and "doc.pdf" are Image.
\<close>

theorem classifier_video_iff_pattern_occurs:
  "(kind_of s = Video) =
     (\<exists>pre e post. s = pre @ CHR ''.'' # e @ post \<and> is_video_extension e) \<and>
   (kind_of s = Image) =
     (\<not> (\<exists>pre e post. s = pre @ CHR ''.'' # e @ post \<and> is_video_extension e)) \<and>
   kind_of ''clip.MP4'' = Video \<and> kind_of ''clip.mov'' = Video \<and>
   kind_of ''photo.jpg'' = Image \<and> kind_of ''doc.pdf'' = Image"
proof -
  have "kind_of ''clip.MP4'' = Video" "kind_of ''clip.mov'' = Video"
    "kind_of ''photo.jpg'' = Image" "kind_of ''doc.pdf'' = Image"
    by code_simp+
  then show ?thesis by (simp add: kind_of_def isVideo_iff)
qed

text \<open>
  C3, as the specification words it (Video exactly when the suffix is one of the
  extensions), fails: "clip.mp4.png" does not end with a video extension and is
  classified as Video.
\<close>

theorem classifier_not_suffix_only:
  "kind_of ''clip.mp4.png'' = Video \<and> \<not> dot_extension_at_end ''clip.mp4.png''"
  by code_simp

text \<open>
  C10. The pattern is searched anywhere in the input: every string that contains a
  dot followed by one of the four extensions (any mix of cases), whatever stands
  before and after, is a video.
\<close>

theorem isVideo_matches_anywhere:
  "is_video_extension e \<Longrightarrow>
     isVideo (pre @ CHR ''.'' # e @ post) \<and> kind_of (pre @ CHR ''.'' # e @ post) = Video"
  unfolding kind_of_def isVideo_iff by auto

theorem isVideo_matches_anywhere_witness:
  "is_video_extension ''mp4'' \<and> isVideo ''clip.mp4.png'' \<and> kind_of ''clip.mp4.png'' = Video"
proof -
  have h: "is_video_extension ''mp4''" by code_simp
  from isVideo_matches_anywhere [OF h, of "''clip''" "''.png''"] h show ?thesis by simp
qed

section \<open>Helper lemmas on the handlers and the slider effect\<close>

lemma some_indexed_iff:
  "some_indexed f xs i = (\<exists>k<length xs. f (xs ! k) (i + k))"
proof (induction xs arbitrary: i)
  case Nil
  show ?case by simp
next
  case (Cons x xs)
  have "(\<exists>k<Suc (length xs). f ((x # xs) ! k) (i + k)) =
        (f x i \<or> (\<exists>k<length xs. f (xs ! k) (Suc i + k)))"
    by (auto simp: less_Suc_eq_0_disj)
  with Cons.IH [of "Suc i"] show ?case by simp
qed

lemma mediaItems_updater_result:
  "mediaItems_updater new prev =
     (if map url (elems prev) = map url (elems new) then prev else new)"
proof (cases "length (elems prev) = length (elems new)")
  case False
  then have "map url (elems prev) \<noteq> map url (elems new)"
    by (metis length_map)
  with False show ?thesis by (simp add: mediaItems_updater_def)
next
  case True
  then have "(map url (elems prev) = map url (elems new)) =
             (\<forall>k<length (elems prev). url (elems prev ! k) = url (elems new ! k))"
    by (simp add: list_eq_iff_nth_eq)
  with True show ?thesis
    by (auto simp: mediaItems_updater_def some_indexed_iff Let_def)
qed

lemma mediaItems_updater_urls_result:
  "mediaItems_updater_urls new prev = (if elems prev = elems new then prev else new)"
proof (cases "length (elems prev) = length (elems new)")
  case False
  then have "elems prev \<noteq> elems new" by auto
  with False show ?thesis by (simp add: mediaItems_updater_urls_def)
next
  case True
  then have "(elems prev = elems new) =
             (\<forall>k<length (elems prev). elems prev ! k = elems new ! k)"
    by (simp add: list_eq_iff_nth_eq)
  with True show ?thesis
    by (auto simp: mediaItems_updater_urls_def some_indexed_iff Let_def)
qed

lemma slider_effect_empty:
  "length (elems (mediaItems s)) = 0 \<Longrightarrow> slider_effect s = Inr (s\<lparr>dwell_timer := False\<rparr>)"
  by (subst slider_effect.simps) simp

lemma slider_effect_past_end:
  "length (elems (mediaItems s)) \<noteq> 0 \<Longrightarrow>
   int (length (elems (mediaItems s))) \<le> currentIndex s \<Longrightarrow>
   slider_effect s = slider_effect (s\<lparr>dwell_timer := False, currentIndex := 0\<rparr>)"
  by (subst slider_effect.simps) simp

lemma slider_effect_negative:
  "length (elems (mediaItems s)) \<noteq> 0 \<Longrightarrow> currentIndex s < 0 \<Longrightarrow>
   \<exists>e. slider_effect s = Inl e"
  by (subst slider_effect.simps) simp

lemma slider_effect_in_range:
  assumes "length (elems (mediaItems s)) \<noteq> 0" "0 \<le> currentIndex s"
    "currentIndex s < int (length (elems (mediaItems s)))"
  shows "\<exists>s'. slider_effect s = Inr s' \<and> currentIndex s' = currentIndex s \<and>
           mediaItems s' = mediaItems s \<and> isMuted s' = isMuted s \<and>
           next_ident s' = next_ident s \<and> notification s' = notification s \<and>
           length (videoRefs s') = length (videoRefs s)"
  using assms
  by (subst slider_effect.simps)
     (simp add: Let_def set_current_video_def split: option.split)


lemma slider_effect_nonneg:
  assumes "0 \<le> currentIndex s"
  shows "\<exists>s'. slider_effect s = Inr s' \<and> mediaItems s' = mediaItems s \<and>
           isMuted s' = isMuted s \<and> next_ident s' = next_ident s \<and>
           notification s' = notification s \<and>
           currentIndex s' =
             (if length (elems (mediaItems s)) \<noteq> 0 \<and>
                 int (length (elems (mediaItems s))) \<le> currentIndex s
              then 0 else currentIndex s)"
proof (cases "length (elems (mediaItems s)) = 0")
  case True
  then show ?thesis by (simp add: slider_effect_empty)
next
  case False
  show ?thesis
  proof (cases "int (length (elems (mediaItems s))) \<le> currentIndex s")
    case True
    let ?t = "s\<lparr>dwell_timer := False, currentIndex := 0\<rparr>"
    from False have "length (elems (mediaItems ?t)) \<noteq> 0" "0 \<le> currentIndex ?t"
      "currentIndex ?t < int (length (elems (mediaItems ?t)))" by simp_all
    from slider_effect_in_range [OF this] slider_effect_past_end [OF False True] False True
    show ?thesis by auto
  next
    case past: False
    with False assms slider_effect_in_range [of s] show ?thesis by auto
  qed
qed

lemma slider_effect_isMuted:
  "slider_effect s = Inr s' \<Longrightarrow> isMuted s' = isMuted s"
proof (cases "0 \<le> currentIndex s")
  case True
  assume "slider_effect s = Inr s'"
  with slider_effect_nonneg [OF True] show ?thesis by auto
next
  case False
  assume r: "slider_effect s = Inr s'"
  show ?thesis
  proof (cases "length (elems (mediaItems s)) = 0")
    case True
    with r show ?thesis by (auto simp: slider_effect_empty)
  next
    case nonempty: False
    with False slider_effect_negative [of s] r show ?thesis by auto
  qed
qed

lemma mediaItems_updater_cases:
  "mediaItems_updater new prev = prev \<or> mediaItems_updater new prev = new"
  by (simp add: mediaItems_updater_result)

lemma fetchContent_total:
  "\<exists>s'. fetchContent bg remote s = Inr s'"
  by (simp add: fetchContent_def Let_def split: sum.split)

lemma fetchContent_unfold:
  assumes "\<not> falsy (kioskId s)"
  obtains s1 where "s1 = s \<or> s1 = s\<lparr>loading := True\<rparr>"
    and "fetchContent bg remote s =
           (case fetchContent_try remote s1 of
              Inr s2 \<Rightarrow> Inr (s2\<lparr>loading := False\<rparr>)
            | Inl error \<Rightarrow>
                Inr (s1\<lparr>console := console s1 @ [ConsoleError ''Error fetching content:'' error],
                         loading := False\<rparr>))"
proof (cases "\<not> bg \<and> length (elems (mediaItems s)) = 0")
  case True
  with assms have "fetchContent bg remote s =
           (case fetchContent_try remote (s\<lparr>loading := True\<rparr>) of
              Inr s2 \<Rightarrow> Inr (s2\<lparr>loading := False\<rparr>)
            | Inl error \<Rightarrow>
                Inr (s\<lparr>loading := True\<rparr>\<lparr>console := console (s\<lparr>loading := True\<rparr>) @
                           [ConsoleError ''Error fetching content:'' error],
                         loading := False\<rparr>))"
    by (simp add: fetchContent_def Let_def)
  then show ?thesis using that [of "s\<lparr>loading := True\<rparr>"] by blast
next
  case False
  with assms have "fetchContent bg remote s =
           (case fetchContent_try remote s of
              Inr s2 \<Rightarrow> Inr (s2\<lparr>loading := False\<rparr>)
            | Inl error \<Rightarrow>
                Inr (s\<lparr>console := console s @ [ConsoleError ''Error fetching content:'' error],
                         loading := False\<rparr>))"
    by (auto simp: fetchContent_def Let_def)
  then show ?thesis using that [of s] by blast
qed

lemma fetchContent_try_frame:
  assumes "fetchContent_try remote s = Inr s'"
  shows "currentIndex s' = currentIndex s \<and> isMuted s' = isMuted s \<and>
         notification s' = notification s \<and> videoRefs s' = videoRefs s \<and>
         kioskId s' = kioskId s \<and> reload_calls s' = reload_calls s \<and>
         dwell_timer s' = dwell_timer s \<and> intervals s' = intervals s \<and>
         console s' = console s \<and> loading s' = loading s \<and>
         next_ident s' = Suc (next_ident s) \<and>
         (mediaItems s' = mediaItems s \<or> ident (mediaItems s') = next_ident s)"
proof -
  from assms obtain items xs where "remote = Inr items"
    and "promise_all (map download_item items) = Inr xs"
    and s': "s' = s\<lparr>next_ident := Suc (next_ident s),
                    mediaItems := mediaItems_updater \<lparr>ident = next_ident s, elems = xs\<rparr> (mediaItems s)\<rparr>"
    by (auto simp: fetchContent_try_def Let_def split: sum.splits)
  from mediaItems_updater_cases [of "\<lparr>ident = next_ident s, elems = xs\<rparr>" "mediaItems s"] s'
  show ?thesis by auto
qed

lemma fetchContent_frame:
  assumes "fetchContent bg remote s = Inr s'"
  shows "currentIndex s' = currentIndex s \<and> isMuted s' = isMuted s \<and>
         notification s' = notification s \<and> videoRefs s' = videoRefs s \<and>
         kioskId s' = kioskId s \<and> reload_calls s' = reload_calls s \<and>
         dwell_timer s' = dwell_timer s \<and> intervals s' = intervals s \<and>
         next_ident s \<le> next_ident s' \<and>
         (mediaItems s' = mediaItems s \<or>
          ident (mediaItems s') = next_ident s \<and> next_ident s' = Suc (next_ident s))"
proof (cases "falsy (kioskId s)")
  case True
  with assms show ?thesis by (simp add: fetchContent_def)
next
  case False
  from fetchContent_unfold [OF False, of bg remote] obtain s1
    where s1: "s1 = s \<or> s1 = s\<lparr>loading := True\<rparr>"
      and f: "fetchContent bg remote s =
           (case fetchContent_try remote s1 of
              Inr s2 \<Rightarrow> Inr (s2\<lparr>loading := False\<rparr>)
            | Inl error \<Rightarrow>
                Inr (s1\<lparr>console := console s1 @ [ConsoleError ''Error fetching content:'' error],
                         loading := False\<rparr>))"
    by blast
  show ?thesis
  proof (cases "fetchContent_try remote s1")
    case (Inl e)
    with f assms have "s' = s1\<lparr>console := console s1 @ [ConsoleError ''Error fetching content:'' e],
                         loading := False\<rparr>" by simp
    with s1 show ?thesis by auto
  next
    case (Inr s2)
    with f assms have s': "s' = s2\<lparr>loading := False\<rparr>" by simp
    from fetchContent_try_frame [OF Inr] s1 s' show ?thesis by auto
  qed
qed

lemma checkVersion_total:
  "\<exists>s'. checkVersion d s = Inr s'"
  by (simp add: checkVersion_def split: sum.split)

lemma checkVersion_frame:
  assumes "checkVersion d s = Inr s'"
  shows "currentIndex s' = currentIndex s \<and> isMuted s' = isMuted s \<and>
         notification s' = notification s \<and> videoRefs s' = videoRefs s \<and>
         kioskId s' = kioskId s \<and> mediaItems s' = mediaItems s \<and>
         dwell_timer s' = dwell_timer s \<and> intervals s' = intervals s \<and>
         loading s' = loading s \<and> next_ident s' = next_ident s"
  using assms
  by (auto simp: checkVersion_def checkVersion_try_def
           split: sum.splits descriptor_fetch.splits if_splits)


lemma nextSlide_frame:
  "mediaItems (nextSlide s) = mediaItems s \<and> isMuted (nextSlide s) = isMuted s \<and>
   next_ident (nextSlide s) = next_ident s \<and> notification (nextSlide s) = notification s"
  by (simp add: nextSlide_def)

lemma nextSlide_index:
  assumes "0 \<le> currentIndex s"
    and "length (elems (mediaItems s)) \<noteq> 0 \<longrightarrow>
         currentIndex s < int (length (elems (mediaItems s)))"
  shows "0 \<le> currentIndex (nextSlide s) \<and>
         (length (elems (mediaItems s)) \<noteq> 0 \<longrightarrow>
          currentIndex (nextSlide s) < int (length (elems (mediaItems s))))"
  using assms by (auto simp: nextSlide_def Let_def)

lemma toggleSound_frame:
  "mediaItems (toggleSound s) = mediaItems s \<and> currentIndex (toggleSound s) = currentIndex s \<and>
   next_ident (toggleSound s) = next_ident s \<and> isMuted (toggleSound s) = (\<not> isMuted s) \<and>
   notification (toggleSound s) = notification s"
  by (simp add: toggleSound_def set_current_video_def Let_def split: option.split)

lemma handle_total: "\<exists>s1. handle ev s = Inr s1"
proof (cases ev)
  case (Mount param remote)
  then show ?thesis using fetchContent_total by (simp add: mount_def Let_def)
next
  case (PollTick remote descriptor)
  obtain s1 where "fetchContent True remote s = Inr s1" using fetchContent_total by blast
  with PollTick checkVersion_total [of descriptor s1] show ?thesis
    by (simp add: poll_tick_def)
next
  case (Upload chosen uploaded remote)
  then show ?thesis using fetchContent_total
    by (simp add: handleUpload_def Let_def split: option.split)
next
  case (Delete path confirmed deleted remote)
  then show ?thesis using fetchContent_total
    by (simp add: handleDelete_def Let_def split: option.split)
qed simp_all

lemma handle_summary:
  assumes "handle ev s = Inr s1"
  shows "(ev \<noteq> ToggleSound \<longrightarrow> isMuted s1 = isMuted s) \<and>
         next_ident s \<le> next_ident s1 \<and>
         (mediaItems s1 = mediaItems s \<and> next_ident s1 = next_ident s \<and>
            (currentIndex s1 = currentIndex s \<or>
             (ev = DwellTimeout \<or> ev = VideoEnded) \<and>
             currentIndex s1 = currentIndex (nextSlide s)) \<or>
          ident (mediaItems s1) = next_ident s \<and> next_ident s1 = Suc (next_ident s) \<and>
            currentIndex s1 = currentIndex s \<or>
          mediaItems s1 = mediaItems s \<and> currentIndex s1 = currentIndex s)"
proof (cases ev)
  case (Mount param remote)
  show ?thesis
  proof (cases "kioskId s = None")
    case True
    let ?s2 = "s\<lparr>kioskId := Some (detect_kioskId param),
                  intervals := fst (autoRefresh_effect (Some (detect_kioskId param)) (intervals s))\<rparr>"
    from True Mount assms have "fetchContent False remote ?s2 = Inr s1"
      by (simp add: mount_def Let_def)
    from fetchContent_frame [OF this] Mount show ?thesis by auto
  next
    case False
    with Mount assms show ?thesis by simp
  qed
next
  case (PollTick remote descriptor)
  with assms obtain s0 where a: "fetchContent True remote s = Inr s0"
    and b: "checkVersion descriptor s0 = Inr s1"
    by (auto simp: poll_tick_def split: sum.splits)
  from fetchContent_frame [OF a] checkVersion_frame [OF b] PollTick show ?thesis by auto
next
  case DwellTimeout
  with assms show ?thesis by (auto simp: nextSlide_def)
next
  case VideoEnded
  with assms show ?thesis by (auto simp: nextSlide_def)
next
  case ToggleSound
  with assms toggleSound_frame [of s] show ?thesis by auto
next
  case (FullscreenChange x)
  with assms show ?thesis by (auto simp: handleFsChange_def)
next
  case (ToggleFullscreenAndUi x)
  with assms show ?thesis by (auto simp: toggleFullscreenAndUi_def split: option.splits)
next
  case ShowUi
  with assms show ?thesis by (auto simp: showUi_def)
next
  case CloseUi
  with assms show ?thesis by auto
next
  case (Upload chosen uploaded remote)
  show ?thesis
  proof (cases "chosen \<noteq> None \<and> uploaded = None")
    case True
    with Upload assms
    have "fetchContent True remote (showToast ''Success!'' (showToast ''Uploading...'' s)) = Inr s1"
      by (auto simp: handleUpload_def Let_def)
    from fetchContent_frame [OF this] Upload show ?thesis by (auto simp: showToast_def)
  next
    case False
    with Upload assms show ?thesis
      by (auto simp: handleUpload_def Let_def showToast_def split: option.splits)
  qed
next
  case (Delete path confirmed deleted remote)
  show ?thesis
  proof (cases "confirmed \<and> deleted = None")
    case True
    with Delete assms
    have "fetchContent True remote (showToast ''Deleted!'' (showToast ''Deleting...'' s)) = Inr s1"
      by (auto simp: handleDelete_def Let_def)
    from fetchContent_frame [OF this] Delete show ?thesis by (auto simp: showToast_def)
  next
    case False
    with Delete assms show ?thesis
      by (auto simp: handleDelete_def Let_def showToast_def split: option.splits if_splits)
  qed
next
  case ToastTimeout
  with assms show ?thesis by auto
next
  case (VideoRef index el)
  with assms show ?thesis by auto
qed

lemma reachable_run:
  "reachable s \<Longrightarrow> run evs s = Inr s' \<Longrightarrow> reachable s'"
proof (induction evs arbitrary: s)
  case Nil
  then show ?case by simp
next
  case (Cons ev evs)
  from Cons.prems(2) obtain s1 where s1: "step ev s = Inr s1" and r: "run evs s1 = Inr s'"
    by (auto split: sum.splits)
  from Cons.prems(1) s1 have "reachable s1" by (rule reachable.after)
  from Cons.IH [OF this r] show ?case .
qed

lemma lobby_session_run: "run lobby_session init_state = Inr showing_b"
  by code_simp

lemma reachable_showing_b: "reachable showing_b"
  using reachable_run [OF reachable.start lobby_session_run] .

lemma mediaItems_updater_urls_cases:
  "(length (elems prev) \<noteq> length (elems new) \<longrightarrow> mediaItems_updater_urls new prev = new) \<and>
   (length (elems prev) = length (elems new) \<and>
    (\<exists>k<length (elems prev). elems prev ! k \<noteq> elems new ! k) \<longrightarrow>
      mediaItems_updater_urls new prev = new) \<and>
   (elems prev = elems new \<longrightarrow> mediaItems_updater_urls new prev = prev)"
  by (auto simp: mediaItems_updater_urls_result)

lemma fetchContent_same_listing:
  assumes "promise_all (map download_item items) = Inr xs"
    and "map url xs = map url (elems (mediaItems s))"
  shows "\<exists>s'. fetchContent bg (Inr items) s = Inr s' \<and> mediaItems s' = mediaItems s \<and>
           currentIndex s' = currentIndex s \<and> isMuted s' = isMuted s \<and>
           videoRefs s' = videoRefs s \<and> dwell_timer s' = dwell_timer s"
proof -
  obtain s' where f: "fetchContent bg (Inr items) s = Inr s'"
    using fetchContent_total by blast
  have "mediaItems s' = mediaItems s"
  proof (cases "falsy (kioskId s)")
    case True
    with f show ?thesis by (simp add: fetchContent_def)
  next
    case False
    from fetchContent_unfold [OF False, of bg "Inr items"] obtain s1
      where s1: "s1 = s \<or> s1 = s\<lparr>loading := True\<rparr>"
        and u: "fetchContent bg (Inr items) s =
           (case fetchContent_try (Inr items) s1 of
              Inr s2 \<Rightarrow> Inr (s2\<lparr>loading := False\<rparr>)
            | Inl error \<Rightarrow>
                Inr (s1\<lparr>console := console s1 @ [ConsoleError ''Error fetching content:'' error],
                         loading := False\<rparr>))"
      by blast
    from s1 have m1: "mediaItems s1 = mediaItems s" by auto
    from assms(2) m1
    have "mediaItems_updater \<lparr>ident = next_ident s1, elems = xs\<rparr> (mediaItems s1) = mediaItems s1"
      by (simp add: mediaItems_updater_result)
    with assms(1) have "fetchContent_try (Inr items) s1 =
        Inr (s1\<lparr>next_ident := Suc (next_ident s1), mediaItems := mediaItems s1\<rparr>)"
      by (simp add: fetchContent_try_def Let_def)
    with u f m1 show ?thesis by auto
  qed
  with f fetchContent_frame [OF f] show ?thesis by simp
qed

lemma poll_tick_same_listing:
  assumes "promise_all (map download_item items) = Inr xs"
    and "map url xs = map url (elems (mediaItems s))"
  shows "\<exists>s'. step (PollTick (Inr items) descriptor) s = Inr s' \<and>
           mediaItems s' = mediaItems s \<and> currentIndex s' = currentIndex s \<and>
           videoRefs s' = videoRefs s \<and> dwell_timer s' = dwell_timer s"
proof -
  from fetchContent_same_listing [OF assms, of True] obtain s0
    where f: "fetchContent True (Inr items) s = Inr s0"
      and k0: "mediaItems s0 = mediaItems s" "currentIndex s0 = currentIndex s"
        "isMuted s0 = isMuted s" "videoRefs s0 = videoRefs s" "dwell_timer s0 = dwell_timer s"
    by blast
  obtain s1 where c: "checkVersion descriptor s0 = Inr s1" using checkVersion_total by blast
  from checkVersion_frame [OF c] k0
  have k1: "mediaItems s1 = mediaItems s" "currentIndex s1 = currentIndex s"
      "isMuted s1 = isMuted s" "videoRefs s1 = videoRefs s" "dwell_timer s1 = dwell_timer s"
    by simp_all
  then have "\<not> slider_deps_changed s s1" by (simp add: slider_deps_changed_def)
  with f c have "step (PollTick (Inr items) descriptor) s = Inr s1"
    by (simp add: step_def poll_tick_def)
  with k1 show ?thesis by blast
qed

section \<open>Reconciler\<close>

text \<open>
  C1. For every previous playlist and every newly listed one the updater passed to
  \<^verbatim>\<open>setMediaItems\<close> returns the new array when the lengths differ; returns the new
  array when the lengths are equal and the URLs differ at some position; and returns
  the previous array itself, identity included, when the lengths are equal and the
  URLs agree at every position. So a poll tick whose listing resolves to the URLs
  held, in the same order, completes with the playlist held (the same object), the
  index, the video elements and the dwell timer as they were: the slider effect does
  not run again. (The lemma \<open>mediaItems_updater_urls_cases\<close> is the statement on the
  updater for the snapshot of src/unnamed/part_000.)
\<close>

theorem reconciler_adopts_or_retains:
  "(length (elems prev) \<noteq> length (elems new) \<longrightarrow> mediaItems_updater new prev = new) \<and>
   (length (elems prev) = length (elems new) \<and>
    (\<exists>k<length (elems prev). url (elems prev ! k) \<noteq> url (elems new ! k)) \<longrightarrow>
      mediaItems_updater new prev = new) \<and>
   (length (elems prev) = length (elems new) \<and>
    (\<forall>k<length (elems prev). url (elems prev ! k) = url (elems new ! k)) \<longrightarrow>
      mediaItems_updater new prev = prev) \<and>
   (promise_all (map download_item items) = Inr xs \<and>
    map url xs = map url (elems (mediaItems s)) \<longrightarrow>
      (\<exists>s'. step (PollTick (Inr items) descriptor) s = Inr s' \<and>
            mediaItems s' = mediaItems s \<and> currentIndex s' = currentIndex s \<and>
            videoRefs s' = videoRefs s \<and> dwell_timer s' = dwell_timer s))"
proof -
  have "(map url (elems prev) = map url (elems new)) =
        (length (elems prev) = length (elems new) \<and>
         (\<forall>k<length (elems prev). url (elems prev ! k) = url (elems new ! k)))"
    by (auto simp: list_eq_iff_nth_eq)
  then have "(length (elems prev) \<noteq> length (elems new) \<longrightarrow> mediaItems_updater new prev = new) \<and>
   (length (elems prev) = length (elems new) \<and>
    (\<exists>k<length (elems prev). url (elems prev ! k) \<noteq> url (elems new ! k)) \<longrightarrow>
      mediaItems_updater new prev = new) \<and>
   (length (elems prev) = length (elems new) \<and>
    (\<forall>k<length (elems prev). url (elems prev ! k) = url (elems new ! k)) \<longrightarrow>
      mediaItems_updater new prev = prev)"
    by (auto simp: mediaItems_updater_result)
  with poll_tick_same_listing [of items xs s descriptor] show ?thesis by blast
qed

theorem reconciler_adopts_or_retains_witness:
  "length (elems playlist_ab) \<noteq> length (elems listing_a) \<and>
   mediaItems_updater listing_a playlist_ab = listing_a \<and>
   length (elems playlist_ab) = length (elems listing_ab_new_token) \<and>
   url (elems playlist_ab ! 1) \<noteq> url (elems listing_ab_new_token ! 1) \<and>
   mediaItems_updater listing_ab_new_token playlist_ab = listing_ab_new_token \<and>
   length (elems playlist_ab) = length (elems listing_ab_again) \<and>
   mediaItems_updater listing_ab_again playlist_ab = playlist_ab \<and>
   ident (mediaItems_updater listing_ab_again playlist_ab) = 1 \<and>
   promise_all (map download_item [lobby_item ''a.png'', lobby_item ''b.mp4'']) =
     Inr (elems playlist_ab) \<and>
   map url (elems playlist_ab) = map url (elems (mediaItems showing_b)) \<and>
   (\<exists>s'. step (PollTick (Inr [lobby_item ''a.png'', lobby_item ''b.mp4''])
                  descriptor_this_build) showing_b = Inr s' \<and>
         mediaItems s' = mediaItems showing_b \<and> currentIndex s' = currentIndex showing_b)"
proof -
  have a: "length (elems playlist_ab) \<noteq> length (elems listing_a)" by code_simp
  have b: "length (elems playlist_ab) = length (elems listing_ab_new_token)" by code_simp
  have b1: "(1::nat) < length (elems playlist_ab)" by code_simp
  have b2: "url (elems playlist_ab ! 1) \<noteq> url (elems listing_ab_new_token ! 1)" by code_simp
  have c: "length (elems playlist_ab) = length (elems listing_ab_again)" by code_simp
  have c1: "\<forall>k<length (elems playlist_ab).
              url (elems playlist_ab ! k) = url (elems listing_ab_again ! k)"
    by (simp add: listing_ab_again_def)
  have i: "ident playlist_ab = 1" by code_simp
  from b1 b2 have b3: "\<exists>k<length (elems playlist_ab).
      url (elems playlist_ab ! k) \<noteq> url (elems listing_ab_new_token ! k)" by blast
  from reconciler_adopts_or_retains [of playlist_ab listing_a] a
  have 1: "mediaItems_updater listing_a playlist_ab = listing_a" by blast
  from reconciler_adopts_or_retains [of playlist_ab listing_ab_new_token] b b3
  have 2: "mediaItems_updater listing_ab_new_token playlist_ab = listing_ab_new_token" by blast
  from reconciler_adopts_or_retains [of playlist_ab listing_ab_again] c c1
  have 3: "mediaItems_updater listing_ab_again playlist_ab = playlist_ab" by blast
  from 3 i have 4: "ident (mediaItems_updater listing_ab_again playlist_ab) = 1"
    by (simp only:)
  have p: "promise_all (map download_item [lobby_item ''a.png'', lobby_item ''b.mp4'']) =
        Inr (elems playlist_ab)" by code_simp
  have q: "map url (elems playlist_ab) = map url (elems (mediaItems showing_b))" by code_simp
  from reconciler_adopts_or_retains
         [of playlist_ab listing_ab_again "[lobby_item ''a.png'', lobby_item ''b.mp4'']"
             "elems playlist_ab" showing_b descriptor_this_build] p q
  have 5: "\<exists>s'. step (PollTick (Inr [lobby_item ''a.png'', lobby_item ''b.mp4''])
                  descriptor_this_build) showing_b = Inr s' \<and>
         mediaItems s' = mediaItems showing_b \<and> currentIndex s' = currentIndex showing_b"
    by blast
  from a b b2 c 1 2 3 4 5 p q show ?thesis by blast
qed

text \<open>
  C9. The result of the updater is one of its two arguments, the previous array or
  the new one, never a third list; and when the previous array is the result, the
  two lists have the same length and the same URL at every position.
\<close>

theorem reconciler_result_is_an_input:
  "(mediaItems_updater new prev = prev \<or> mediaItems_updater new prev = new) \<and>
   (mediaItems_updater new prev = prev \<longrightarrow>
      length (elems prev) = length (elems new) \<and>
      (\<forall>k<length (elems prev). url (elems prev ! k) = url (elems new ! k)))"
proof (cases "map url (elems prev) = map url (elems new)")
  case True
  then have "length (elems prev) = length (elems new) \<and>
             (\<forall>k<length (elems prev). url (elems prev ! k) = url (elems new ! k))"
    by (auto simp: list_eq_iff_nth_eq)
  moreover from True have "mediaItems_updater new prev = prev"
    by (simp add: mediaItems_updater_result)
  ultimately show ?thesis by blast
next
  case False
  then have r: "mediaItems_updater new prev = new"
    by (simp add: mediaItems_updater_result)
  from False have "new \<noteq> prev" by auto
  with r show ?thesis by simp
qed

theorem reconciler_result_is_an_input_witness:
  "mediaItems_updater listing_ab_again playlist_ab = playlist_ab \<and>
   length (elems playlist_ab) = length (elems listing_ab_again) \<and>
   url (elems playlist_ab ! 0) = url (elems listing_ab_again ! 0) \<and>
   url (elems playlist_ab ! 1) = url (elems listing_ab_again ! 1)"
proof -
  have kept: "mediaItems_updater listing_ab_again playlist_ab = playlist_ab" by code_simp
  have len: "length (elems playlist_ab) = 2" by code_simp
  from reconciler_result_is_an_input [of listing_ab_again playlist_ab] kept
  have "length (elems playlist_ab) = length (elems listing_ab_again)"
    and all: "\<forall>k<length (elems playlist_ab).
       url (elems playlist_ab ! k) = url (elems listing_ab_again ! k)"
    by blast+
  then have "url (elems playlist_ab ! 0) = url (elems listing_ab_again ! 0)"
    and "url (elems playlist_ab ! 1) = url (elems listing_ab_again ! 1)"
    using len by simp_all
  with kept \<open>length (elems playlist_ab) = length (elems listing_ab_again)\<close>
  show ?thesis by blast
qed

section \<open>Playback\<close>

text \<open>
  C5. With a playlist of N > 0 items and the index i in range, \<^verbatim>\<open>nextSlide\<close> moves
  the index to (i + 1) mod N, which is 0 from the last item; the dwell timeout and the
  \<^verbatim>\<open>ended\<close> event of a video both run it, and the slider effect that follows leaves
  that index and the playlist as they are.
\<close>

theorem nextSlide_advances_circularly:
  assumes "0 < length (elems (mediaItems s))"
    and "0 \<le> currentIndex s"
    and "currentIndex s < int (length (elems (mediaItems s)))"
  shows "currentIndex (nextSlide s) =
           (currentIndex s + 1) mod int (length (elems (mediaItems s))) \<and>
         (currentIndex s = int (length (elems (mediaItems s))) - 1 \<longrightarrow>
            currentIndex (nextSlide s) = 0) \<and>
         (\<exists>s'. step DwellTimeout s = Inr s' \<and> mediaItems s' = mediaItems s \<and>
               currentIndex s' = (currentIndex s + 1) mod int (length (elems (mediaItems s)))) \<and>
         (\<exists>s'. step VideoEnded s = Inr s' \<and> mediaItems s' = mediaItems s \<and>
               currentIndex s' = (currentIndex s + 1) mod int (length (elems (mediaItems s))))"
proof -
  let ?n = "int (length (elems (mediaItems s)))"
  have adv: "currentIndex (nextSlide s) = (currentIndex s + 1) mod ?n"
  proof (cases "currentIndex s = ?n - 1")
    case True
    then show ?thesis by (simp add: nextSlide_def)
  next
    case False
    with assms have "currentIndex s + 1 < ?n" by simp
    with assms False show ?thesis by (simp add: nextSlide_def)
  qed
  have last: "currentIndex s = ?n - 1 \<longrightarrow> currentIndex (nextSlide s) = 0"
    by (simp add: nextSlide_def)
  have after: "\<exists>s'. (if slider_deps_changed s t then slider_effect t else Inr t) = Inr s' \<and>
      mediaItems s' = mediaItems s \<and> currentIndex s' = currentIndex (nextSlide s)"
    if t: "mediaItems t = mediaItems s" "currentIndex t = currentIndex (nextSlide s)" for t
  proof -
    from assms nextSlide_index [of s] t
    have "length (elems (mediaItems t)) \<noteq> 0" "0 \<le> currentIndex t"
      "currentIndex t < int (length (elems (mediaItems t)))" by auto
    from slider_effect_in_range [OF this] t show ?thesis by auto
  qed
  have "mediaItems (nextSlide (s\<lparr>dwell_timer := False\<rparr>)) = mediaItems s"
    "currentIndex (nextSlide (s\<lparr>dwell_timer := False\<rparr>)) = currentIndex (nextSlide s)"
    by (simp_all add: nextSlide_def)
  from after [OF this] adv
  have dwell: "\<exists>s'. step DwellTimeout s = Inr s' \<and> mediaItems s' = mediaItems s \<and>
               currentIndex s' = (currentIndex s + 1) mod ?n"
    by (simp add: step_def)
  have "mediaItems (nextSlide s) = mediaItems s" by (simp add: nextSlide_def)
  from after [OF this refl] adv
  have ended: "\<exists>s'. step VideoEnded s = Inr s' \<and> mediaItems s' = mediaItems s \<and>
               currentIndex s' = (currentIndex s + 1) mod ?n"
    by (simp add: step_def)
  from adv last dwell ended show ?thesis by blast
qed

theorem nextSlide_advances_circularly_witness:
  "0 < length (elems (mediaItems showing_b)) \<and> 0 \<le> currentIndex showing_b \<and>
   currentIndex showing_b < int (length (elems (mediaItems showing_b))) \<and>
   currentIndex showing_b = 1 \<and> currentIndex (nextSlide showing_b) = 0 \<and>
   (\<exists>s'. step VideoEnded showing_b = Inr s' \<and> currentIndex s' = 0)"
proof -
  have h1: "0 < length (elems (mediaItems showing_b))" by code_simp
  have h2: "0 \<le> currentIndex showing_b" by code_simp
  have h3: "currentIndex showing_b < int (length (elems (mediaItems showing_b)))" by code_simp
  have i: "currentIndex showing_b = 1" by code_simp
  have m: "(currentIndex showing_b + 1) mod int (length (elems (mediaItems showing_b))) = 0"
    by code_simp
  from nextSlide_advances_circularly [OF h1 h2 h3] m
  have "currentIndex (nextSlide showing_b) = 0"
    and "\<exists>s'. step VideoEnded showing_b = Inr s' \<and> currentIndex s' = 0"
    by auto
  with h1 h2 h3 i show ?thesis by blast
qed


section \<open>The index invariant\<close>

lemma step_total:
  assumes "0 \<le> currentIndex s"
  shows "\<exists>s'. step ev s = Inr s'"
proof -
  obtain s1 where h: "handle ev s = Inr s1" using handle_total by blast
  have "0 \<le> currentIndex s1"
  proof (cases "currentIndex s1 = currentIndex s")
    case True
    with assms show ?thesis by simp
  next
    case False
    with handle_summary [OF h] have "currentIndex s1 = currentIndex (nextSlide s)" by auto
    then show ?thesis using assms by (auto simp: nextSlide_def Let_def)
  qed
  from slider_effect_nonneg [OF this] h show ?thesis by (auto simp: step_def)
qed

lemma step_preserves:
  assumes idx: "0 \<le> currentIndex s"
    and rng: "length (elems (mediaItems s)) \<noteq> 0 \<longrightarrow>
              currentIndex s < int (length (elems (mediaItems s)))"
    and fresh: "ident (mediaItems s) < next_ident s"
    and st: "step ev s = Inr s'"
  shows "0 \<le> currentIndex s' \<and>
         (length (elems (mediaItems s')) \<noteq> 0 \<longrightarrow>
            currentIndex s' < int (length (elems (mediaItems s')))) \<and>
         ident (mediaItems s') < next_ident s' \<and>
         (length (elems (mediaItems s')) \<noteq> 0 \<and>
          int (length (elems (mediaItems s'))) \<le> currentIndex s \<longrightarrow> currentIndex s' = 0)"
proof -
  from st obtain s1 where h: "handle ev s = Inr s1"
    and e: "(if slider_deps_changed s s1 then slider_effect s1 else Inr s1) = Inr s'"
    by (auto simp: step_def split: sum.splits)
  note sm = handle_summary [OF h]
  have i1: "0 \<le> currentIndex s1"
  proof (cases "currentIndex s1 = currentIndex s")
    case True
    with idx show ?thesis by simp
  next
    case False
    with sm have "currentIndex s1 = currentIndex (nextSlide s)" by auto
    then show ?thesis using idx by (auto simp: nextSlide_def Let_def)
  qed
  have f1: "ident (mediaItems s1) < next_ident s1" using sm fresh by auto
  show ?thesis
  proof (cases "ident (mediaItems s1) = ident (mediaItems s)")
    case True
    with fresh sm have same: "mediaItems s1 = mediaItems s" by auto
    have r1: "length (elems (mediaItems s1)) \<noteq> 0 \<longrightarrow>
              currentIndex s1 < int (length (elems (mediaItems s1)))"
    proof (cases "currentIndex s1 = currentIndex s")
      case True
      with same rng show ?thesis by simp
    next
      case False
      with sm have "currentIndex s1 = currentIndex (nextSlide s)" by auto
      with same nextSlide_index [OF idx rng] show ?thesis by simp
    qed
    have "currentIndex s' = currentIndex s1 \<and> mediaItems s' = mediaItems s1 \<and>
          next_ident s' = next_ident s1"
    proof (cases "slider_deps_changed s s1")
      case True
      with e slider_effect_nonneg [OF i1] r1 show ?thesis by auto
    next
      case False
      with e show ?thesis by simp
    qed
    with i1 r1 f1 same rng show ?thesis by auto
  next
    case False
    then have ch: "slider_deps_changed s s1" by (simp add: slider_deps_changed_def)
    from False sm have keep: "currentIndex s1 = currentIndex s" by auto
    from ch e slider_effect_nonneg [OF i1] keep f1 idx show ?thesis by auto
  qed
qed

lemma reachable_invariant:
  "reachable s \<Longrightarrow>
     0 \<le> currentIndex s \<and>
     (length (elems (mediaItems s)) \<noteq> 0 \<longrightarrow>
        currentIndex s < int (length (elems (mediaItems s)))) \<and>
     ident (mediaItems s) < next_ident s"
proof (induction rule: reachable.induct)
  case start
  show ?case by (simp add: init_state_def)
next
  case (after s ev s')
  then show ?case using step_preserves [of s ev s'] by blast
qed

lemma reachable_step_total:
  "reachable s \<Longrightarrow> \<exists>s'. step ev s = Inr s'"
  using reachable_invariant [of s] step_total [of s ev] by blast

text \<open>
  C2. In every state the component can reach, after any event (a playback
  transition, a reconciliation, any other handler) and the slider effect that
  follows it, a playlist of N > 0 items has 0 <= currentIndex < N; and when the index
  held before is out of range for the playlist held after (a reconciliation shrank
  it), the index is 0. By \<open>reachable_step_total\<close> the event always completes.
\<close>

theorem currentIndex_stays_in_range:
  assumes "reachable s" and "step ev s = Inr s'"
    and "0 < length (elems (mediaItems s'))"
  shows "0 \<le> currentIndex s' \<and> currentIndex s' < int (length (elems (mediaItems s'))) \<and>
         (int (length (elems (mediaItems s'))) \<le> currentIndex s \<longrightarrow> currentIndex s' = 0)"
proof -
  from reachable_invariant [OF assms(1)]
  have "0 \<le> currentIndex s"
    and "length (elems (mediaItems s)) \<noteq> 0 \<longrightarrow>
         currentIndex s < int (length (elems (mediaItems s)))"
    and "ident (mediaItems s) < next_ident s" by simp_all
  from step_preserves [OF this assms(2)] assms(3) show ?thesis by simp
qed

theorem currentIndex_stays_in_range_witness:
  "reachable showing_b \<and> currentIndex showing_b = 1 \<and>
   (\<exists>s'. step listing_shrinks showing_b = Inr s' \<and>
         length (elems (mediaItems s')) = 1 \<and> currentIndex s' = 0)"
proof -
  have i: "currentIndex showing_b = 1" by code_simp
  have "case step listing_shrinks showing_b of
          Inr s' \<Rightarrow> length (elems (mediaItems s')) = 1 | Inl e \<Rightarrow> False"
    by code_simp
  then obtain s' where st: "step listing_shrinks showing_b = Inr s'"
    and len: "length (elems (mediaItems s')) = 1"
    by (auto split: sum.splits)
  from len have pos: "0 < length (elems (mediaItems s'))" by simp
  from currentIndex_stays_in_range [OF reachable_showing_b st pos] len i
  have "currentIndex s' = 0" by simp
  with reachable_showing_b i st len show ?thesis by blast
qed

section \<open>Listing failures\<close>

lemma promise_all_rejects:
  "Inl e \<in> set ps \<Longrightarrow> \<exists>e'. promise_all ps = Inl e'"
proof (induction ps rule: promise_all.induct)
  case 1
  then show ?case by simp
next
  case (2 e0 ps)
  show ?case by simp
next
  case (3 x ps)
  then show ?case by (auto split: sum.splits)
qed

lemma fetchContent_try_rejects:
  assumes "remote = Inl e \<or> (\<exists>items it. remote = Inr items \<and> (it, Inl e) \<in> set items)"
  shows "\<exists>e'. fetchContent_try remote s = Inl e'"
  using assms
proof
  assume "remote = Inl e"
  then show ?thesis by (simp add: fetchContent_try_def)
next
  assume "\<exists>items it. remote = Inr items \<and> (it, Inl e) \<in> set items"
  then obtain items it where r: "remote = Inr items" and m: "(it, Inl e) \<in> set items" by blast
  from m have "download_item (it, Inl e) \<in> set (map download_item items)" by (simp del: download_item.simps)
  then have "Inl e \<in> set (map download_item items)" by simp
  from promise_all_rejects [OF this] r show ?thesis
    by (auto simp: fetchContent_try_def)
qed

text \<open>
  C6. When \<^verbatim>\<open>listAll\<close> rejects, or the download URL of some listed item cannot be
  resolved, \<^verbatim>\<open>fetchContent\<close> returns normally with the playlist, the index and the
  operator's notification as they were; with a kiosk id known the only trace is one
  more \<^verbatim>\<open>console.error\<close> entry (and the loading indicator is off). A poll tick with
  such a listing completes, whatever the version check meets, and keeps playlist and
  index.
\<close>

theorem listing_failure_keeps_playlist:
  assumes "remote = Inl e \<or> (\<exists>items it. remote = Inr items \<and> (it, Inl e) \<in> set items)"
  shows "(\<exists>s'. fetchContent bg remote s = Inr s' \<and> mediaItems s' = mediaItems s \<and>
            currentIndex s' = currentIndex s \<and> notification s' = notification s \<and>
            (if falsy (kioskId s) then s' = s
             else \<not> loading s' \<and>
                  (\<exists>e'. console s' = console s @ [ConsoleError ''Error fetching content:'' e']))) \<and>
         (\<exists>s'. step (PollTick remote descriptor) s = Inr s' \<and> mediaItems s' = mediaItems s \<and>
            currentIndex s' = currentIndex s \<and> notification s' = notification s)"
proof -
  have a: "\<exists>s'. fetchContent bg remote s = Inr s' \<and> mediaItems s' = mediaItems s \<and>
            currentIndex s' = currentIndex s \<and> notification s' = notification s \<and>
            isMuted s' = isMuted s \<and>
            (if falsy (kioskId s) then s' = s
             else \<not> loading s' \<and>
                  (\<exists>e'. console s' = console s @ [ConsoleError ''Error fetching content:'' e']))"
    for bg
  proof (cases "falsy (kioskId s)")
    case True
    then show ?thesis by (simp add: fetchContent_def)
  next
    case False
    from fetchContent_unfold [OF False, of bg remote] obtain s1
      where s1: "s1 = s \<or> s1 = s\<lparr>loading := True\<rparr>"
        and f: "fetchContent bg remote s =
           (case fetchContent_try remote s1 of
              Inr s2 \<Rightarrow> Inr (s2\<lparr>loading := False\<rparr>)
            | Inl error \<Rightarrow>
                Inr (s1\<lparr>console := console s1 @ [ConsoleError ''Error fetching content:'' error],
                         loading := False\<rparr>))"
      by blast
    from fetchContent_try_rejects [OF assms, of s1] obtain e'
      where "fetchContent_try remote s1 = Inl e'" by blast
    with f have "fetchContent bg remote s =
        Inr (s1\<lparr>console := console s1 @ [ConsoleError ''Error fetching content:'' e'],
                 loading := False\<rparr>)" by simp
    with s1 False show ?thesis by auto
  qed
  from a [of True] obtain s0 where f0: "fetchContent True remote s = Inr s0"
    and k0: "mediaItems s0 = mediaItems s" "currentIndex s0 = currentIndex s"
      "notification s0 = notification s" "isMuted s0 = isMuted s" by blast
  obtain s1 where c1: "checkVersion descriptor s0 = Inr s1" using checkVersion_total by blast
  from checkVersion_frame [OF c1] k0
  have k1: "mediaItems s1 = mediaItems s" "currentIndex s1 = currentIndex s"
      "notification s1 = notification s" "isMuted s1 = isMuted s" by simp_all
  then have "\<not> slider_deps_changed s s1" by (simp add: slider_deps_changed_def)
  with f0 c1 have "step (PollTick remote descriptor) s = Inr s1"
    by (simp add: step_def poll_tick_def)
  with k1 have "\<exists>s'. step (PollTick remote descriptor) s = Inr s' \<and> mediaItems s' = mediaItems s \<and>
            currentIndex s' = currentIndex s \<and> notification s' = notification s" by blast
  moreover from a [of bg]
  have "\<exists>s'. fetchContent bg remote s = Inr s' \<and> mediaItems s' = mediaItems s \<and>
            currentIndex s' = currentIndex s \<and> notification s' = notification s \<and>
            (if falsy (kioskId s) then s' = s
             else \<not> loading s' \<and>
                  (\<exists>e'. console s' = console s @ [ConsoleError ''Error fetching content:'' e']))"
    by blast
  ultimately show ?thesis by blast
qed

theorem listing_failure_keeps_playlist_witness:
  "(\<exists>it. (it, Inl (StorageError ''storage/retry-limit-exceeded'')) \<in> set (projr listing_fails)) \<and>
   (\<exists>s'. fetchContent True listing_fails showing_b = Inr s' \<and>
         mediaItems s' = playlist_ab \<and> currentIndex s' = 1 \<and> notification s' = [] \<and>
         console s' = [ConsoleError ''Error fetching content:''
                         (StorageError ''storage/retry-limit-exceeded'')])"
proof -
  let ?e = "StorageError ''storage/retry-limit-exceeded''"
  let ?it = "\<lparr> item_fullPath = ''images/lobby/b.mp4'', item_name = ''b.mp4'' \<rparr>"
  have m: "(?it, Inl ?e) \<in> set (projr listing_fails)" by (simp add: listing_fails_def)
  have r: "listing_fails = Inr (projr listing_fails)" by (simp add: listing_fails_def)
  from m r have h: "listing_fails = Inl ?e \<or>
      (\<exists>items it. listing_fails = Inr items \<and> (it, Inl ?e) \<in> set items)" by blast
  from listing_failure_keeps_playlist [OF h, of True showing_b]
  obtain s' where f: "fetchContent True listing_fails showing_b = Inr s'"
    and k: "mediaItems s' = mediaItems showing_b" "currentIndex s' = currentIndex showing_b"
      "notification s' = notification showing_b" by blast
  have c: "case fetchContent True listing_fails showing_b of
             Inr t \<Rightarrow> console t = [ConsoleError ''Error fetching content:'' ?e] | Inl x \<Rightarrow> False"
    by code_simp
  have v: "mediaItems showing_b = playlist_ab" "currentIndex showing_b = 1"
    "notification showing_b = []" by (simp_all add: showing_b_def)
  from f c have "console s' = [ConsoleError ''Error fetching content:'' ?e]" by simp
  with f k v m show ?thesis by auto
qed


section \<open>The mute flag\<close>

lemma step_isMuted:
  assumes "ev \<noteq> ToggleSound" and "step ev s = Inr s'"
  shows "isMuted s' = isMuted s"
proof -
  from assms(2) obtain s1 where h: "handle ev s = Inr s1"
    and e: "(if slider_deps_changed s s1 then slider_effect s1 else Inr s1) = Inr s'"
    by (auto simp: step_def split: sum.splits)
  from handle_summary [OF h] assms(1) have "isMuted s1 = isMuted s" by simp
  moreover from e have "isMuted s' = isMuted s1"
    by (auto dest: slider_effect_isMuted split: if_splits)
  ultimately show ?thesis by simp
qed

lemma current_video_Some:
  "(current_video s = Some v) =
     (0 \<le> currentIndex s \<and> nat (currentIndex s) < length (videoRefs s) \<and>
      videoRefs s ! nat (currentIndex s) = Some v)"
  by (auto simp: current_video_def Let_def nat_less_iff)

lemma toggleSound_current_video:
  assumes "current_video s = Some v"
  shows "current_video (toggleSound s) = Some (v\<lparr>muted := \<not> isMuted s\<rparr>)"
proof -
  from assms have "toggleSound s =
      set_current_video (v\<lparr>muted := \<not> isMuted s\<rparr>) (s\<lparr>isMuted := \<not> isMuted s\<rparr>)"
    by (simp add: toggleSound_def)
  moreover from assms have "0 \<le> currentIndex s \<and> nat (currentIndex s) < length (videoRefs s)"
    by (simp add: current_video_Some)
  ultimately show ?thesis by (simp add: current_video_Some set_current_video_def)
qed

lemma slider_effect_current_video:
  assumes "current_video s = Some v" and "\<not> muted v" and "\<not> isMuted s"
    and "length (elems (mediaItems s)) \<noteq> 0 \<longrightarrow>
         0 \<le> currentIndex s \<and> currentIndex s < int (length (elems (mediaItems s)))"
  shows "\<exists>s' v'. slider_effect s = Inr s' \<and> isMuted s' = isMuted s \<and>
           current_video s' = Some v' \<and> \<not> muted v'"
proof -
  from assms(1) have r: "0 \<le> currentIndex s" "nat (currentIndex s) < length (videoRefs s)"
    "videoRefs s ! nat (currentIndex s) = Some v"
    by (simp_all add: current_video_Some)
  show ?thesis
  proof (cases "length (elems (mediaItems s)) = 0")
    case True
    with r assms(2) show ?thesis by (simp add: slider_effect_empty current_video_Some)
  next
    case False
    note nonempty = False
    show ?thesis
    proof (cases "isVideo (url (elems (mediaItems s) ! nat (currentIndex s)))")
      case False
      with nonempty assms(4)
      have "slider_effect s = Inr (s\<lparr>dwell_timer := True\<rparr>)"
        by (subst slider_effect.simps) (simp add: Let_def)
      with r assms(2) show ?thesis by (simp add: current_video_Some)
    next
      case True
      with nonempty assms(1,4)
      have "slider_effect s =
          Inr (set_current_video (v\<lparr>currentTime := 0, muted := isMuted s,
                                     play_calls := Suc (play_calls v)\<rparr>)
                 (s\<lparr>dwell_timer := False\<rparr>))"
        by (subst slider_effect.simps) (simp add: Let_def)
      with r assms(3) show ?thesis by (simp add: current_video_Some set_current_video_def)
    qed
  qed
qed

text \<open>
  C8. The mute flag is true in the initial state. Every event other than the sound
  toggle (mount, poll tick with its reconciliation and version check, dwell timeout,
  video ended, fullscreen change, the overlay buttons, upload, delete, toast timeout,
  a ref callback), run with the slider effect that follows it, leaves the flag as it
  was. From a state with the flag true and a video element at the current index,
  \<^verbatim>\<open>toggleSound\<close> sets the flag to false and the \<^verbatim>\<open>muted\<close> property of that element
  to false (with no element there, as in the initial state, it sets the flag alone);
  and in a reachable state this is still so after the slider effect that the change of
  the flag triggers.
\<close>

theorem isMuted_changed_only_by_toggleSound:
  "isMuted init_state \<and>
   (ev \<noteq> ToggleSound \<and> step ev s = Inr s' \<longrightarrow> isMuted s' = isMuted s) \<and>
   (isMuted s \<longrightarrow>
      \<not> isMuted (toggleSound s) \<and>
      (current_video s = Some v \<longrightarrow>
         current_video (toggleSound s) = Some (v\<lparr>muted := False\<rparr>))) \<and>
   (reachable s \<and> isMuted s \<and> current_video s = Some v \<longrightarrow>
      (\<exists>t v'. step ToggleSound s = Inr t \<and> \<not> isMuted t \<and>
              current_video t = Some v' \<and> \<not> muted v'))"
proof -
  have 1: "isMuted init_state" by (simp add: init_state_def)
  have 2: "ev \<noteq> ToggleSound \<and> step ev s = Inr s' \<longrightarrow> isMuted s' = isMuted s"
    using step_isMuted by blast
  have 3: "isMuted s \<longrightarrow>
      \<not> isMuted (toggleSound s) \<and>
      (current_video s = Some v \<longrightarrow>
         current_video (toggleSound s) = Some (v\<lparr>muted := False\<rparr>))"
    using toggleSound_current_video [of s v] toggleSound_frame [of s] by auto
  have 4: "\<exists>t v'. step ToggleSound s = Inr t \<and> \<not> isMuted t \<and>
              current_video t = Some v' \<and> \<not> muted v'"
    if r: "reachable s" and m: "isMuted s" and c: "current_video s = Some v"
  proof -
    let ?s1 = "toggleSound s"
    from 3 m c have c1: "current_video ?s1 = Some (v\<lparr>muted := False\<rparr>)"
      and m1: "\<not> isMuted ?s1" by simp_all
    from reachable_invariant [OF r] toggleSound_frame [of s]
    have rng: "length (elems (mediaItems ?s1)) \<noteq> 0 \<longrightarrow>
         0 \<le> currentIndex ?s1 \<and> currentIndex ?s1 < int (length (elems (mediaItems ?s1)))"
      by simp
    have "\<not> muted (v\<lparr>muted := False\<rparr>)" by simp
    from slider_effect_current_video [OF c1 this m1 rng] m1
    obtain t v' where "slider_effect ?s1 = Inr t" "\<not> isMuted t"
      "current_video t = Some v'" "\<not> muted v'" by auto
    moreover from m m1 have "slider_deps_changed s ?s1" by (auto simp: slider_deps_changed_def)
    ultimately show ?thesis by (auto simp: step_def)
  qed
  from 1 2 3 4 show ?thesis by blast
qed

theorem isMuted_changed_only_by_toggleSound_witness:
  "isMuted init_state \<and> PollTick listing_fails descriptor_next_build \<noteq> ToggleSound \<and>
   (\<exists>s'. step (PollTick listing_fails descriptor_next_build) showing_b = Inr s' \<and>
         isMuted s' = isMuted showing_b) \<and>
   \<not> isMuted (toggleSound init_state) \<and>
   reachable showing_b \<and> isMuted showing_b \<and>
   current_video showing_b = Some \<lparr>muted = True, currentTime = 0, play_calls = 1\<rparr> \<and>
   \<not> isMuted (toggleSound showing_b) \<and>
   current_video (toggleSound showing_b) = Some \<lparr>muted = False, currentTime = 0, play_calls = 1\<rparr> \<and>
   (\<exists>t v'. step ToggleSound showing_b = Inr t \<and> \<not> isMuted t \<and>
           current_video t = Some v' \<and> \<not> muted v')"
proof -
  let ?v = "\<lparr>muted = True, currentTime = 0, play_calls = 1\<rparr>"
  let ?ev = "PollTick listing_fails descriptor_next_build"
  have ne: "?ev \<noteq> ToggleSound" by simp
  obtain s' where st: "step ?ev showing_b = Inr s'"
    using reachable_step_total [OF reachable_showing_b] by blast
  have m: "isMuted showing_b" by code_simp
  have c: "current_video showing_b = Some ?v" by code_simp
  note th = isMuted_changed_only_by_toggleSound [of ?ev showing_b s' ?v]
  from th have i: "isMuted init_state" by blast
  from isMuted_changed_only_by_toggleSound [of ?ev init_state s' ?v] i
  have "\<not> isMuted (toggleSound init_state)" by blast
  moreover note i
  moreover from th ne st have "isMuted s' = isMuted showing_b" by blast
  moreover from th m c have "\<not> isMuted (toggleSound showing_b)"
    and "current_video (toggleSound showing_b) = Some (?v\<lparr>muted := False\<rparr>)" by blast+
  moreover from th reachable_showing_b m c
  have "\<exists>t v'. step ToggleSound showing_b = Inr t \<and> \<not> isMuted t \<and>
           current_video t = Some v' \<and> \<not> muted v'" by blast
  ultimately show ?thesis using ne st reachable_showing_b m c by auto
qed

section \<open>Poll scheduler\<close>









section \<open>Version gate\<close>

lemma reload_due_Parsed:
  assumes "reload_due remote"
  shows "\<exists>members ver. remote = Parsed (JObject members) \<and>
           map_of members ''version'' = Some (JString ver) \<and> ver \<noteq> APP_VERSION"
proof -
  from assms obtain v where r: "remote = Parsed v"
    by (cases remote) (auto simp: reload_due_def)
  with assms obtain ver where d: "descriptor_version v = Some ver" and n: "ver \<noteq> APP_VERSION"
    by (auto simp: reload_due_def split: option.splits)
  from d obtain members where v: "v = JObject members" by (cases v) auto
  with d have "map_of members ''version'' = Some (JString ver)"
    by (auto split: option.splits json.splits)
  with r v n show ?thesis by blast
qed

text \<open>
  C4, as the code has it. A version check always returns normally and leaves the
  playlist, the index and the operator's notification alone. It calls
  \<^verbatim>\<open>window.location.reload\<close>, once, exactly when the descriptor was fetched and parsed
  to a value other than \<^verbatim>\<open>null\<close> whose \<^verbatim>\<open>version\<close> member is not the string of the build
  constant: a different version string, and also no such member or one that is not a
  string. In every other case (the fetch rejects, the text is not JSON, the value is
  \<^verbatim>\<open>null\<close>, the versions match) nothing changes at all. In particular a well-formed
  descriptor with another version string reloads.
\<close>

theorem checkVersion_reloads_iff_version_differs:
  "\<exists>s'. checkVersion remote s = Inr s' \<and>
     mediaItems s' = mediaItems s \<and> currentIndex s' = currentIndex s \<and>
     notification s' = notification s \<and>
     (if \<exists>v. remote = Parsed v \<and> v \<noteq> JNull \<and>
             (\<forall>members. v = JObject members \<longrightarrow>
                map_of members ''version'' \<noteq> Some (JString APP_VERSION))
      then reload_calls s' = Suc (reload_calls s) \<and>
           s' = s\<lparr>console := console s @ [ConsoleLog ''New version detected! Reloading...''],
                   reload_calls := Suc (reload_calls s)\<rparr>
      else s' = s) \<and>
     (reload_due remote \<longrightarrow> reload_calls s' = Suc (reload_calls s))"
proof -
  let ?differs = "\<exists>v. remote = Parsed v \<and> v \<noteq> JNull \<and>
             (\<forall>members. v = JObject members \<longrightarrow>
                map_of members ''version'' \<noteq> Some (JString APP_VERSION))"
  let ?reloaded = "s\<lparr>console := console s @ [ConsoleLog ''New version detected! Reloading...''],
                   reload_calls := Suc (reload_calls s)\<rparr>"
  have due: "?differs" if "reload_due remote"
  proof -
    from reload_due_Parsed [OF that] obtain members ver
      where "remote = Parsed (JObject members)"
        and "map_of members ''version'' = Some (JString ver)" and "ver \<noteq> APP_VERSION"
      by blast
    then show ?thesis by auto
  qed
  have res: "checkVersion remote s = Inr (if ?differs then ?reloaded else s)"
  proof (cases remote)
    case (GetBytesRejected e)
    then show ?thesis by (simp add: checkVersion_def checkVersion_try_def)
  next
    case (ParseFailed e)
    then show ?thesis by (simp add: checkVersion_def checkVersion_try_def)
  next
    case (Parsed v)
    then show ?thesis
      by (cases v) (simp_all add: checkVersion_def checkVersion_try_def)
  qed
  show ?thesis
  proof (cases ?differs)
    case True
    with res have "checkVersion remote s = Inr ?reloaded" by simp
    with True show ?thesis by simp
  next
    case False
    with res have "checkVersion remote s = Inr s" by simp
    with False due show ?thesis by auto
  qed
qed

theorem checkVersion_reloads_iff_version_differs_witness:
  "reload_due descriptor_next_build \<and>
   (\<exists>s'. checkVersion descriptor_next_build showing_b = Inr s' \<and>
         reload_calls showing_b = 0 \<and> reload_calls s' = 1 \<and>
         mediaItems s' = playlist_ab \<and> notification s' = []) \<and>
   checkVersion descriptor_this_build showing_b = Inr showing_b \<and>
   checkVersion (GetBytesRejected (StorageError ''offline'')) showing_b = Inr showing_b \<and>
   checkVersion (ParseFailed (SyntaxError ''Unexpected token'')) showing_b = Inr showing_b \<and>
   checkVersion (Parsed JNull) showing_b = Inr showing_b"
proof -
  have d: "reload_due descriptor_next_build" by code_simp
  have z: "reload_calls showing_b = 0" "mediaItems showing_b = playlist_ab"
    "notification showing_b = []" by (simp_all add: showing_b_def)
  from checkVersion_reloads_iff_version_differs [of descriptor_next_build showing_b] d z
  have a: "\<exists>s'. checkVersion descriptor_next_build showing_b = Inr s' \<and>
         reload_calls showing_b = 0 \<and> reload_calls s' = 1 \<and>
         mediaItems s' = playlist_ab \<and> notification s' = []"
    by auto
  have n: "\<not> (\<exists>v. descriptor_this_build = Parsed v \<and> v \<noteq> JNull \<and>
             (\<forall>members. v = JObject members \<longrightarrow>
                map_of members ''version'' \<noteq> Some (JString APP_VERSION)))"
    by (simp add: descriptor_this_build_def APP_VERSION_def)
  from checkVersion_reloads_iff_version_differs [of descriptor_this_build showing_b] n
  have b: "checkVersion descriptor_this_build showing_b = Inr showing_b" by auto
  from checkVersion_reloads_iff_version_differs
         [of "GetBytesRejected (StorageError ''offline'')" showing_b]
  have c: "checkVersion (GetBytesRejected (StorageError ''offline'')) showing_b = Inr showing_b"
    by auto
  from checkVersion_reloads_iff_version_differs
         [of "ParseFailed (SyntaxError ''Unexpected token'')" showing_b]
  have e: "checkVersion (ParseFailed (SyntaxError ''Unexpected token'')) showing_b = Inr showing_b"
    by auto
  from checkVersion_reloads_iff_version_differs [of "Parsed JNull" showing_b]
  have f: "checkVersion (Parsed JNull) showing_b = Inr showing_b" by auto
  from d a b c e f show ?thesis by blast
qed

text \<open>
  C4, as the specification words it (a malformed descriptor is ignored like a fetch
  failure), fails: the descriptor \<^verbatim>\<open>{}\<close> carries no version string, and the check
  reloads.
\<close>

theorem checkVersion_reloads_on_descriptor_without_version:
  "checkVersion descriptor_without_version init_state =
     Inr (init_state\<lparr>console := [ConsoleLog ''New version detected! Reloading...''],
                     reload_calls := 1\<rparr>) \<and>
   \<not> reload_due descriptor_without_version"
  by code_simp

end
